theory Spec2Isabelle
  imports Complex_Main "HOL-Library.AList"
begin

section \<open>Values and errors\<close>

text \<open>
  A parsed JSON5 document. Python dictionaries keep insertion order, which the written
  text shows, so an object is an association list; its keys are pairwise distinct.
  A finite float is the rational number it denotes.
\<close>

datatype json =
    JNull
  | JBool bool
  | JInt int
  | JFloat rat
  | JStr string
  | JList "json list"
  | JObj "(string \<times> json) list"

datatype error =
    KeyError
  | TypeError
  | ValueError
  | AttributeError
  | FileNotFoundError

section \<open>Strings\<close>

text \<open>\<open>s.endswith(t)\<close>\<close>

definition endswith :: "string \<Rightarrow> string \<Rightarrow> bool" where
  "endswith s t = (length t \<le> length s \<and> drop (length s - length t) s = t)"

text \<open>\<open>s.split(sep)\<close> for a one-character separator: the result is never empty.\<close>

fun split_chr :: "char \<Rightarrow> string \<Rightarrow> string list" where
  "split_chr c [] = [[]]"
| "split_chr c (x # xs) =
     (if x = c then [] # split_chr c xs
      else (case split_chr c xs of
              [] \<Rightarrow> [[x]]
            | w # ws \<Rightarrow> (x # w) # ws))"

text \<open>\<open>sep.join(ws)\<close>\<close>

fun join :: "string \<Rightarrow> string list \<Rightarrow> string" where
  "join sep [] = []"
| "join sep [w] = w"
| "join sep (w # v # ws) = w @ sep @ join sep (v # ws)"

text \<open>\<open>s.rfind('.')\<close>: the index of the last dot, if there is one.\<close>

fun rfind_dot :: "string \<Rightarrow> nat option" where
  "rfind_dot [] = None"
| "rfind_dot (x # xs) =
     (case rfind_dot xs of
        Some i \<Rightarrow> Some (Suc i)
      | None \<Rightarrow> (if x = CHR ''.'' then Some 0 else None))"

section \<open>Paths\<close>

text \<open>
  A pure path in the POSIX flavour of \<open>pathlib\<close> (Python 3.10, which the source's
  type hints need): whether it is anchored at the root, and its components. Parsing
  drops empty components and single dots and keeps \<open>..\<close>. The root \<open>//\<close> that POSIX
  keeps apart from \<open>/\<close> is not.
\<close>

type_synonym ppath = "bool \<times> string list"

definition PurePath :: "string \<Rightarrow> ppath" where
  "PurePath s =
     (s \<noteq> [] \<and> hd s = CHR ''/'',
      filter (\<lambda>w. w \<noteq> [] \<and> w \<noteq> ''.'') (split_chr CHR ''/'' s))"

definition name :: "ppath \<Rightarrow> string" where
  "name p = (if snd p = [] then [] else last (snd p))"

definition parent :: "ppath \<Rightarrow> ppath" where
  "parent p = (fst p, butlast (snd p))"

text \<open>The stem of a final component: what is before the last dot, unless that dot is
  the first or the last character.\<close>

definition stem_of :: "string \<Rightarrow> string" where
  "stem_of n =
     (case rfind_dot n of
        Some i \<Rightarrow> (if 0 < i \<and> i < length n - 1 then take i n else n)
      | None \<Rightarrow> n)"

definition stem :: "ppath \<Rightarrow> string" where
  "stem p = stem_of (name p)"

text \<open>\<open>p.with_name(n)\<close> raises ValueError when \<open>p\<close> has no name or \<open>n\<close> is not
  exactly one component.\<close>

definition with_name :: "ppath \<Rightarrow> string \<Rightarrow> error + ppath" where
  "with_name p n =
     (if name p = [] then Inl ValueError
      else if n = [] \<or> last n = CHR ''/'' \<or> fst (PurePath n) \<or> length (snd (PurePath n)) \<noteq> 1
      then Inl ValueError
      else Inr (fst p, butlast (snd p) @ [n]))"

text \<open>\<open>p.with_suffix(s)\<close>: the old suffix, if any, is replaced by \<open>s\<close>.\<close>

definition with_suffix :: "ppath \<Rightarrow> string \<Rightarrow> error + ppath" where
  "with_suffix p s =
     (if CHR ''/'' \<in> set s \<or> (s \<noteq> [] \<and> hd s \<noteq> CHR ''.'') \<or> s = ''.'' then Inl ValueError
      else if name p = [] then Inl ValueError
      else Inr (fst p, butlast (snd p) @ [stem_of (name p) @ s]))"

text \<open>\<open>a / b\<close>: an anchored right operand replaces the left one.\<close>

definition joinpath :: "ppath \<Rightarrow> ppath \<Rightarrow> ppath" where
  "joinpath a b = (if fst b then b else (fst a, snd a @ snd b))"

fun strip_prefix :: "'a list \<Rightarrow> 'a list \<Rightarrow> 'a list option" where
  "strip_prefix [] ys = Some ys"
| "strip_prefix (x # xs) [] = None"
| "strip_prefix (x # xs) (y # ys) = (if x = y then strip_prefix xs ys else None)"

definition relative_to :: "ppath \<Rightarrow> ppath \<Rightarrow> error + ppath" where
  "relative_to p base =
     (if fst p \<noteq> fst base then Inl ValueError
      else (case strip_prefix (snd base) (snd p) of
              None \<Rightarrow> Inl ValueError
            | Some r \<Rightarrow> Inr (False, r)))"

definition as_posix :: "ppath \<Rightarrow> string" where
  "as_posix p =
     (if fst p then CHR ''/'' # join ''/'' (snd p)
      else if snd p = [] then ''.''
      else join ''/'' (snd p))"

section \<open>Files\<close>

text \<open>
  The regular files on disk, keyed by resolved path (the components below the root).
  Directories and symbolic links are not recorded: \<open>resolve\<close> only folds \<open>..\<close>
  away, and a relative path is read from the root. A file holds a JSON5 document or
  something \<open>json5.load\<close> rejects.
\<close>

datatype fdata = JsonFile json | OtherFile

type_synonym fs = "string list \<Rightarrow> fdata option"

fun collapse :: "string list \<Rightarrow> string list \<Rightarrow> string list" where
  "collapse acc [] = rev acc"
| "collapse acc (w # ws) =
     (if w = ''..'' then collapse (tl acc) ws else collapse (w # acc) ws)"

definition resolve :: "ppath \<Rightarrow> string list" where
  "resolve p = collapse [] (snd p)"

definition is_file :: "fs \<Rightarrow> ppath \<Rightarrow> bool" where
  "is_file f p = (f (resolve p) \<noteq> None)"

text \<open>\<open>with p.open("r") as h: json5.load(h)\<close>\<close>

definition load_json :: "fs \<Rightarrow> ppath \<Rightarrow> error + json" where
  "load_json f p =
     (case f (resolve p) of
        None \<Rightarrow> Inl FileNotFoundError
      | Some OtherFile \<Rightarrow> Inl ValueError
      | Some (JsonFile j) \<Rightarrow> Inr j)"

definition get_file_or_backup :: "fs \<Rightarrow> ppath \<Rightarrow> error + ppath" where
  "get_file_or_backup f file =
     (case with_suffix file ''.bak'' of
        Inl e \<Rightarrow> Inl e
      | Inr backup_file \<Rightarrow> Inr (if is_file f backup_file then backup_file else file))"

text \<open>\<open>file.rename(backup_file)\<close>\<close>

definition rename :: "fs \<Rightarrow> ppath \<Rightarrow> ppath \<Rightarrow> error + fs" where
  "rename f file backup_file =
     (case f (resolve file) of
        None \<Rightarrow> Inl FileNotFoundError
      | Some d \<Rightarrow> Inr ((f(resolve file := None))(resolve backup_file \<mapsto> d)))"

definition write_and_backup ::
  "fs \<Rightarrow> ppath \<Rightarrow> json \<Rightarrow> ppath \<Rightarrow> ppath option \<Rightarrow> bool \<Rightarrow> error + fs" where
  "write_and_backup f file json_data main_dir copy_dir force_rewrite =
     (case with_suffix file ''.bak'' of
        Inl e \<Rightarrow> Inl e
      | Inr backup_file \<Rightarrow>
          (case (if \<not> (force_rewrite \<or> copy_dir \<noteq> None \<or> is_file f backup_file)
                 then rename f file backup_file else Inr f) of
             Inl e \<Rightarrow> Inl e
           | Inr f1 \<Rightarrow>
               (case (case copy_dir of
                        None \<Rightarrow> Inr file
                      | Some cd \<Rightarrow>
                          (case relative_to file main_dir of
                             Inl e \<Rightarrow> Inl e
                           | Inr r \<Rightarrow> Inr (joinpath cd r))) of
                  Inl e \<Rightarrow> Inl e
                | Inr dest \<Rightarrow>
                    (case with_suffix dest ''.json'' of
                       Inl e \<Rightarrow> Inl e
                     | Inr new_file \<Rightarrow> Inr (f1(resolve new_file \<mapsto> JsonFile json_data))))))"

section \<open>The manifest\<close>

definition PYTK_DEPENDENCY :: json where
  "PYTK_DEPENDENCY = JObj [(''UniqueID'', JStr ''Platonymous.Toolkit'')]"

definition HD_PORTRAITS_DEPENDENCY :: json where
  "HD_PORTRAITS_DEPENDENCY = JObj [(''UniqueID'', JStr ''tlitookilakin.HDPortraits'')]"

definition version :: string where
  "version = ''1.4.0''"

definition generated_by :: string where
  "generated_by =
     ''Generated by Portrait Patcher '' @ version @ '', by purplexpresso. Licensed under GPLv3.''"

text \<open>The list held under \<open>Dependencies\<close>: append unless present, then remove the
  first occurrence of the old record (\<open>list.remove\<close>, its ValueError swallowed). On
  anything but a list the membership test raises TypeError.\<close>

definition rewrite_dependencies :: "json list \<Rightarrow> json list" where
  "rewrite_dependencies dependencies =
     remove1 PYTK_DEPENDENCY
       (if HD_PORTRAITS_DEPENDENCY \<notin> set dependencies
        then dependencies @ [HD_PORTRAITS_DEPENDENCY] else dependencies)"

text \<open>The \<open>defaultdict(list, ...)\<close>: reading a missing key stores an empty list under it.
  The loaded document is taken to be an object; the sequences of pairs \<open>dict\<close> would
  also accept are not modelled.\<close>

definition default_list :: "string \<Rightarrow> (string \<times> json) list \<Rightarrow> (string \<times> json) list" where
  "default_list k d = (case map_of d k of None \<Rightarrow> d @ [(k, JList [])] | Some v \<Rightarrow> d)"

definition update_dependencies :: "fs \<Rightarrow> ppath \<Rightarrow> error + (string \<times> json) list" where
  "update_dependencies f manifest_file =
     (case load_json f manifest_file of
        Inl e \<Rightarrow> Inl e
      | Inr (JObj loaded) \<Rightarrow>
          (let manifest_dict = default_list ''Dependencies'' loaded in
           case map_of manifest_dict ''Dependencies'' of
             Some (JList dependencies) \<Rightarrow>
               Inr (AList.update ''GeneratedBy'' (JStr generated_by)
                      (AList.update ''Dependencies'' (JList (rewrite_dependencies dependencies))
                         manifest_dict))
           | _ \<Rightarrow> Inl TypeError)
      | Inr _ \<Rightarrow> Inl TypeError)"

section \<open>Sidecar metadata\<close>

definition get_variant_metadata_file :: "ppath \<Rightarrow> string option \<Rightarrow> string \<Rightarrow> error + ppath" where
  "get_variant_metadata_file portrait_file variant VARIANT_SEPARATOR =
     (case with_name portrait_file
             (case variant of
                None \<Rightarrow> stem portrait_file
              | Some v \<Rightarrow>
                  (if endswith (stem portrait_file) v then stem portrait_file
                   else stem portrait_file @ VARIANT_SEPARATOR @ v)) of
        Inl e \<Rightarrow> Inl e
      | Inr q \<Rightarrow> with_suffix q ''.json'')"

text \<open>\<open>int(x)\<close> on a parsed value. A string is read as an optionally signed run of ASCII
  digits, single underscores allowed between digits, ASCII blanks around it (the other
  blanks and digits of Unicode that \<open>int\<close> takes are left out). JSON5's \<open>Infinity\<close> and
  \<open>NaN\<close>, on which \<open>int\<close> raises, are no values of \<open>json\<close>.\<close>

definition is_digit :: "char \<Rightarrow> bool" where
  "is_digit c = (48 \<le> (of_char c :: nat) \<and> (of_char c :: nat) \<le> 57)"

definition is_space :: "char \<Rightarrow> bool" where
  "is_space c = ((of_char c :: nat) \<in> {9, 10, 11, 12, 13, 32})"

fun dec_digits :: "nat \<Rightarrow> bool \<Rightarrow> string \<Rightarrow> nat option" where
  "dec_digits acc prev_digit [] = (if prev_digit then Some acc else None)"
| "dec_digits acc prev_digit (c # cs) =
     (if is_digit c then dec_digits (10 * acc + (of_char c - 48)) True cs
      else if c = CHR ''_'' \<and> prev_digit then dec_digits acc False cs
      else None)"

definition strip :: "string \<Rightarrow> string" where
  "strip s = rev (dropWhile is_space (rev (dropWhile is_space s)))"

definition int_of_string :: "string \<Rightarrow> error + int" where
  "int_of_string s =
     (case strip s of
        [] \<Rightarrow> Inl ValueError
      | c # cs \<Rightarrow>
          (if c = CHR ''-'' then
             (case dec_digits 0 False cs of None \<Rightarrow> Inl ValueError | Some n \<Rightarrow> Inr (- int n))
           else if c = CHR ''+'' then
             (case dec_digits 0 False cs of None \<Rightarrow> Inl ValueError | Some n \<Rightarrow> Inr (int n))
           else
             (case dec_digits 0 False (c # cs) of None \<Rightarrow> Inl ValueError | Some n \<Rightarrow> Inr (int n))))"

definition py_int :: "json \<Rightarrow> error + int" where
  "py_int v =
     (case v of
        JInt n \<Rightarrow> Inr n
      | JBool b \<Rightarrow> Inr (if b then 1 else 0)
      | JFloat r \<Rightarrow> Inr (if 0 \<le> r then \<lfloor>r\<rfloor> else \<lceil>r\<rceil>)
      | JStr s \<Rightarrow> int_of_string s
      | _ \<Rightarrow> Inl TypeError)"

definition STARDEW_PORTRAIT_SIZE :: int where
  "STARDEW_PORTRAIT_SIZE = 64"

definition create_metadata_json :: "fs \<Rightarrow> ppath \<Rightarrow> string \<Rightarrow> error + json option" where
  "create_metadata_json f portrait_file target_name =
     (case with_suffix portrait_file ''.pytk.json'' of
        Inl e \<Rightarrow> Inl e
      | Inr pytk_file \<Rightarrow>
          (case f (resolve pytk_file) of
             None \<Rightarrow> Inr None
           | Some OtherFile \<Rightarrow> Inl ValueError
           | Some (JsonFile (JObj pytk_dict)) \<Rightarrow>
               (case map_of pytk_dict ''Scale'' of
                  None \<Rightarrow> Inl KeyError
                | Some scale \<Rightarrow>
                    (case py_int scale of
                       Inl e \<Rightarrow> Inl e
                     | Inr n \<Rightarrow>
                         Inr (Some (JObj [(''Size'', JInt (n * STARDEW_PORTRAIT_SIZE)),
                                          (''Portrait'', JStr target_name)]))))
           | Some (JsonFile _) \<Rightarrow> Inl TypeError))"

section \<open>Template tokens\<close>

text \<open>The pattern \<open>\{\{[a-zA-Z0-9_./]+\}\}\<close>. No character of the class is a brace, so a
  match at a position is unique: two opening braces, the longest run of class characters
  (at least one), two closing braces.\<close>

definition token_char :: "char \<Rightarrow> bool" where
  "token_char c =
     (let n = (of_char c :: nat) in
      (97 \<le> n \<and> n \<le> 122) \<or> (65 \<le> n \<and> n \<le> 90) \<or> (48 \<le> n \<and> n \<le> 57)
      \<or> c = CHR ''_'' \<or> c = CHR ''.'' \<or> c = CHR ''/'')"

text \<open>The length of the token that starts the string, if one does.\<close>

definition token_len :: "string \<Rightarrow> nat option" where
  "token_len s =
     (if take 2 s = ''{{'' then
        (let body = takeWhile token_char (drop 2 s) in
         if body \<noteq> [] \<and> take 2 (drop (2 + length body) s) = ''}}''
         then Some (length body + 4) else None)
      else None)"

text \<open>\<open>content_patcher_token.search(s)\<close>, as a truth value.\<close>

fun token_search :: "string \<Rightarrow> bool" where
  "token_search [] = False"
| "token_search (c # cs) = (token_len (c # cs) \<noteq> None \<or> token_search cs)"

text \<open>\<open>regex.sub(content_patcher_token, repl, s)\<close>: the matches are replaced from the
  left; the first argument counts the characters of a match still to be dropped.\<close>

fun token_sub :: "nat \<Rightarrow> string \<Rightarrow> string \<Rightarrow> string" where
  "token_sub k repl [] = []"
| "token_sub (Suc k) repl (c # cs) = token_sub k repl cs"
| "token_sub 0 repl (c # cs) =
     (case token_len (c # cs) of
        Some n \<Rightarrow> repl @ token_sub (n - 1) repl cs
      | None \<Rightarrow> c # token_sub 0 repl cs)"

section \<open>The patch rewriter\<close>

datatype FileParsed = INDIVIDUAL | GLOBBED

definition CP_WILDCARD :: string where
  "CP_WILDCARD = ''*''"

definition VARIANT_SEPARATOR :: char where
  "VARIANT_SEPARATOR = CHR ''_''"

text \<open>
  The state of one run. The entries of \<open>Changes\<close> are objects that the loop mutates in
  place while it inserts into the list, so each carries its identity: the entries loaded
  from the document are numbered from 0 in document order, the copies made by the loop
  get fresh numbers. \<open>sidecar_log\<close> is not in the source: it records, in order, the
  tracking key and the kind of every sidecar write the loop performs.
\<close>

record state =
  files :: fs
  Changes :: "(nat \<times> json) list"
  parsed_metadata_files :: "string list \<Rightarrow> FileParsed option"
  sidecar_log :: "(string list \<times> FileParsed) list"

text \<open>Assigning to the object with a given identity, wherever it is in the list.\<close>

definition set_object :: "nat \<Rightarrow> json \<Rightarrow> (nat \<times> json) list \<Rightarrow> (nat \<times> json) list" where
  "set_object i v cs = map (\<lambda>(j, x). if j = i then (j, v) else (j, x)) cs"

text \<open>\<open>xs.insert(i, x)\<close> for \<open>i \<ge> 0\<close>: past the end it appends.\<close>

definition list_insert :: "nat \<Rightarrow> 'a \<Rightarrow> 'a list \<Rightarrow> 'a list" where
  "list_insert i x xs = take i xs @ x # drop i xs"

text \<open>Everything after the first separator of the target's stem, or nothing.\<close>

definition target_variant :: "string \<Rightarrow> string option" where
  "target_variant s =
     (let v = join [VARIANT_SEPARATOR] (tl (split_chr VARIANT_SEPARATOR s))
      in if v = [] then None else Some v)"

text \<open>The tail both branches of the loop body share once a sidecar is due: record the
  metadata file in the tracking map, build the sidecar, and write it with
  \<open>force_rewrite=True\<close> unless there is no legacy sidecar.\<close>

definition write_sidecar ::
  "ppath \<Rightarrow> ppath option \<Rightarrow> FileParsed \<Rightarrow> ppath \<Rightarrow> ppath \<Rightarrow> string \<Rightarrow> state \<Rightarrow> error + state" where
  "write_sidecar content_patch_dir copy_dir kind portrait_file metadata_file target_name st =
     (let st1 = st\<lparr>parsed_metadata_files :=
                    (parsed_metadata_files st)(resolve metadata_file \<mapsto> kind)\<rparr> in
      case create_metadata_json (files st1) portrait_file target_name of
        Inl e \<Rightarrow> Inl e
      | Inr None \<Rightarrow> Inr st1
      | Inr (Some metadata_json) \<Rightarrow>
          (case write_and_backup (files st1) metadata_file metadata_json
                  content_patch_dir copy_dir True of
             Inl e \<Rightarrow> Inl e
           | Inr f \<Rightarrow>
               Inr (st1\<lparr>files := f,
                        sidecar_log := sidecar_log st1 @ [(resolve metadata_file, kind)]\<rparr>)))"

text \<open>The inner loop over the files a glob matched.\<close>

fun glob_loop ::
  "ppath \<Rightarrow> ppath option \<Rightarrow> string option \<Rightarrow> string \<Rightarrow> ppath list \<Rightarrow> state \<Rightarrow> error + state" where
  "glob_loop content_patch_dir copy_dir variant target_name [] st = Inr st"
| "glob_loop content_patch_dir copy_dir variant target_name (globbed_portrait_file # rest) st =
     (case get_variant_metadata_file globbed_portrait_file variant [VARIANT_SEPARATOR] of
        Inl e \<Rightarrow> Inl e
      | Inr globbed_metadata_file \<Rightarrow>
          (if parsed_metadata_files st (resolve globbed_metadata_file) \<noteq> None
           then glob_loop content_patch_dir copy_dir variant target_name rest st
           else
             (case write_sidecar content_patch_dir copy_dir GLOBBED globbed_portrait_file
                     globbed_metadata_file target_name st of
                Inl e \<Rightarrow> Inl e
              | Inr st' \<Rightarrow> glob_loop content_patch_dir copy_dir variant target_name rest st')))"

text \<open>The glob pattern of a templated source path.\<close>

definition glob_string :: "ppath \<Rightarrow> string" where
  "glob_string rel = token_sub 0 CP_WILDCARD (as_posix rel)"

text \<open>
  The part of the loop body after the insertion: the sidecars. \<open>glob\<close> stands for
  \<open>Path.glob\<close>: the matches of a pattern below a directory, in the order the library
  yields them, as paths below that directory, or the error it raises on a pattern it
  does not accept (such as one with \<open>**\<close> inside a component, which two adjacent
  tokens give).
\<close>

definition sidecars ::
  "(fs \<Rightarrow> ppath \<Rightarrow> string \<Rightarrow> error + ppath list) \<Rightarrow> ppath \<Rightarrow> ppath option \<Rightarrow> string option \<Rightarrow>
   ppath \<Rightarrow> ppath \<Rightarrow> ppath \<Rightarrow> string \<Rightarrow> state \<Rightarrow> error + state" where
  "sidecars glob content_patch_dir copy_dir variant portrait_file portrait_rel metadata_file
     target_name st =
     (if token_search (stem portrait_file) then
        (case glob (files st) content_patch_dir (glob_string portrait_rel) of
           Inl e \<Rightarrow> Inl e
         | Inr matches \<Rightarrow>
             glob_loop content_patch_dir copy_dir variant target_name matches st)
      else if is_file (files st) portrait_file then
        (if parsed_metadata_files st (resolve metadata_file) = Some INDIVIDUAL then Inr st
         else write_sidecar content_patch_dir copy_dir INDIVIDUAL portrait_file metadata_file
                target_name st)
      else Inr st)"

text \<open>The string under a key of an entry: KeyError when missing, TypeError when
  \<open>PurePath\<close> is handed something that is not a string.\<close>

definition get_str :: "(string \<times> json) list \<Rightarrow> string \<Rightarrow> error + string" where
  "get_str d k =
     (case map_of d k of
        None \<Rightarrow> Inl KeyError
      | Some (JStr s) \<Rightarrow> Inr s
      | Some _ \<Rightarrow> Inl TypeError)"

text \<open>One pass of the loop body, for the entry with identity \<open>index\<close>; \<open>n\<close> is the
  number of entries the document was loaded with.\<close>

definition patch_item ::
  "(fs \<Rightarrow> ppath \<Rightarrow> string \<Rightarrow> error + ppath list) \<Rightarrow> ppath \<Rightarrow> ppath option \<Rightarrow> ppath \<Rightarrow> ppath \<Rightarrow>
   nat \<Rightarrow> nat \<Rightarrow> state \<Rightarrow> error + state" where
  "patch_item glob content_patch_dir copy_dir hd_portraits hd_portraits_patch n index st =
     (case map_of (Changes st) index of
        None \<Rightarrow> Inl KeyError
      | Some (JObj metadata_item) \<Rightarrow>
          (case get_str metadata_item ''Target'' of
             Inl e \<Rightarrow> Inl e
           | Inr target \<Rightarrow>
               (let portrait_name = PurePath target in
                if stem (parent portrait_name) \<noteq> ''Portraits'' then Inr st
                else
                  (case get_str metadata_item ''FromFile'' of
                     Inl e \<Rightarrow> Inl e
                   | Inr from_file \<Rightarrow>
                       (let variant = target_variant (stem portrait_name);
                            portrait_file = joinpath content_patch_dir (PurePath from_file)
                        in
                        case get_variant_metadata_file portrait_file variant [VARIANT_SEPARATOR] of
                          Inl e \<Rightarrow> Inl e
                        | Inr metadata_file \<Rightarrow>
                            (case relative_to metadata_file content_patch_dir of
                               Inl e \<Rightarrow> Inl e
                             | Inr metadata_rel \<Rightarrow>
                                 (case relative_to portrait_file content_patch_dir of
                                    Inl e \<Rightarrow> Inl e
                                  | Inr portrait_rel \<Rightarrow>
                                      (let hd_portraits_target_path =
                                             joinpath hd_portraits (PurePath (stem portrait_name));
                                           hd_portraits_patch_target_path =
                                             joinpath hd_portraits_patch (PurePath (stem portrait_name));
                                           popped = AList.delete ''PatchMode'' metadata_item;
                                           load_item =
                                             AList.update ''FromFile'' (JStr (as_posix metadata_rel))
                                               (AList.update ''Target''
                                                  (JStr (as_posix hd_portraits_target_path))
                                                  (AList.update ''Action'' (JStr ''Load'') popped));
                                           portrait_item =
                                             AList.update ''FromFile'' (JStr (as_posix portrait_rel))
                                               (AList.update ''Target''
                                                  (JStr (as_posix hd_portraits_patch_target_path))
                                                  (AList.update ''Action'' (JStr ''EditImage'') popped));
                                           st1 = st\<lparr>Changes :=
                                                   list_insert (2 * index) (n + index, JObj portrait_item)
                                                     (set_object index (JObj load_item) (Changes st))\<rparr>
                                       in
                                       sidecars glob content_patch_dir copy_dir variant portrait_file
                                         portrait_rel metadata_file
                                         (as_posix hd_portraits_patch_target_path) st1)))))))
      | Some _ \<Rightarrow> Inl TypeError)"

text \<open>The loop over the copy of the list made before the first pass.\<close>

fun patch_loop ::
  "(fs \<Rightarrow> ppath \<Rightarrow> string \<Rightarrow> error + ppath list) \<Rightarrow> ppath \<Rightarrow> ppath option \<Rightarrow> ppath \<Rightarrow> ppath \<Rightarrow>
   nat \<Rightarrow> nat list \<Rightarrow> state \<Rightarrow> error + state" where
  "patch_loop glob content_patch_dir copy_dir hd_portraits hd_portraits_patch n [] st = Inr st"
| "patch_loop glob content_patch_dir copy_dir hd_portraits hd_portraits_patch n (index # rest) st =
     (case patch_item glob content_patch_dir copy_dir hd_portraits hd_portraits_patch n index st of
        Inl e \<Rightarrow> Inl e
      | Inr st' \<Rightarrow>
          patch_loop glob content_patch_dir copy_dir hd_portraits hd_portraits_patch n rest st')"

text \<open>The loop on a loaded list of entries, from an empty tracking map.\<close>

definition patch_changes ::
  "(fs \<Rightarrow> ppath \<Rightarrow> string \<Rightarrow> error + ppath list) \<Rightarrow> ppath \<Rightarrow> ppath option \<Rightarrow> ppath \<Rightarrow> ppath \<Rightarrow>
   fs \<Rightarrow> json list \<Rightarrow> error + state" where
  "patch_changes glob content_patch_dir copy_dir hd_portraits hd_portraits_patch f entries =
     patch_loop glob content_patch_dir copy_dir hd_portraits hd_portraits_patch (length entries)
       [0 ..< length entries]
       \<lparr>files = f, Changes = zip [0 ..< length entries] entries,
        parsed_metadata_files = (\<lambda>k. None), sidecar_log = []\<rparr>"

text \<open>Only directories are cloned (the \<open>ignore\<close> callback drops every regular file), so
  the files on disk stay as they are. Directories are not recorded, and with them the
  FileExistsError of \<open>copytree\<close> on a destination that exists is left out.\<close>

definition clone_dir_tree :: "fs \<Rightarrow> ppath \<Rightarrow> ppath \<Rightarrow> fs" where
  "clone_dir_tree f source destination = f"

text \<open>The end of a run: the patch document is stamped and written, then the manifest.\<close>

definition write_documents ::
  "ppath \<Rightarrow> ppath option \<Rightarrow> ppath \<Rightarrow> (string \<times> json) list \<Rightarrow> state \<Rightarrow> error + state" where
  "write_documents content_patch_dir copy_dir content_file content_dict st =
     (case write_and_backup (files st) content_file
             (JObj (AList.update ''Format'' (JStr ''1.28.0'') content_dict))
             content_patch_dir copy_dir False of
        Inl e \<Rightarrow> Inl e
      | Inr f2 \<Rightarrow>
          (case get_file_or_backup f2 (joinpath content_patch_dir (PurePath ''manifest.json'')) of
             Inl e \<Rightarrow> Inl e
           | Inr manifest_file \<Rightarrow>
               (case update_dependencies f2 manifest_file of
                  Inl e \<Rightarrow> Inl e
                | Inr manifest_dict \<Rightarrow>
                    (case write_and_backup f2 manifest_file (JObj manifest_dict)
                            content_patch_dir copy_dir False of
                       Inl e \<Rightarrow> Inl e
                     | Inr f3 \<Rightarrow> Inr (st\<lparr>files := f3\<rparr>)))))"

text \<open>
  A whole run on one mod directory. \<open>Changes\<close> is expected to be a list; an empty
  object passes too (its copy is iterated, there is nothing to visit), anything else
  fails at \<open>.copy()\<close> or at the first subscript.
\<close>

definition content_patcher_portraits ::
  "(fs \<Rightarrow> ppath \<Rightarrow> string \<Rightarrow> error + ppath list) \<Rightarrow> ppath \<Rightarrow> ppath option \<Rightarrow> ppath \<Rightarrow> ppath \<Rightarrow>
   fs \<Rightarrow> error + state" where
  "content_patcher_portraits glob content_patch_dir copy_dir hd_portraits hd_portraits_patch f0 =
     (let f1 = (case copy_dir of None \<Rightarrow> f0 | Some cd \<Rightarrow> clone_dir_tree f0 content_patch_dir cd) in
      case get_file_or_backup f1 (joinpath content_patch_dir (PurePath ''content.json'')) of
        Inl e \<Rightarrow> Inl e
      | Inr content_file \<Rightarrow>
          (case load_json f1 content_file of
             Inl e \<Rightarrow> Inl e
           | Inr (JObj content_dict) \<Rightarrow>
               (case map_of content_dict ''Changes'' of
                  None \<Rightarrow> Inl KeyError
                | Some (JList entries) \<Rightarrow>
                    (case patch_changes glob content_patch_dir copy_dir hd_portraits
                            hd_portraits_patch f1 entries of
                       Inl e \<Rightarrow> Inl e
                     | Inr st \<Rightarrow>
                         write_documents content_patch_dir copy_dir content_file
                           (AList.update ''Changes'' (JList (map snd (Changes st))) content_dict) st)
                | Some (JObj d) \<Rightarrow>
                    (if d = [] then
                       write_documents content_patch_dir copy_dir content_file content_dict
                         \<lparr>files = f1, Changes = [], parsed_metadata_files = (\<lambda>k. None),
                          sidecar_log = []\<rparr>
                     else Inl TypeError)
                | Some _ \<Rightarrow> Inl AttributeError)
           | Inr _ \<Rightarrow> Inl TypeError))"

section \<open>Notions for the proofs\<close>

text \<open>Every sidecar write on record has its key in the tracking map, and no key was
  written twice as \<open>GLOBBED\<close>.\<close>

definition log_inv :: "state \<Rightarrow> bool" where
  "log_inv st =
     ((\<forall>e \<in> set (sidecar_log st). parsed_metadata_files st (fst e) \<noteq> None)
      \<and> distinct (map fst (filter (\<lambda>e. snd e = GLOBBED) (sidecar_log st))))"

text \<open>From one state to a later one of an in-place run: the record of writes has only
  grown, and a file whose key is not on record is as it was.\<close>

definition log_covers :: "state \<Rightarrow> state \<Rightarrow> bool" where
  "log_covers st st' =
     (set (sidecar_log st) \<subseteq> set (sidecar_log st')
      \<and> (\<forall>k. k \<notin> fst ` set (sidecar_log st') \<longrightarrow> files st' k = files st k))"

text \<open>The list after the first \<open>i\<close> of \<open>n\<close> entries were visited and all were portraits:
  for each of them the copy made by the loop and then the entry itself, with the
  contents \<open>E j\<close> and \<open>L j\<close>.\<close>

definition rewritten_pairs ::
  "nat \<Rightarrow> (nat \<Rightarrow> json) \<Rightarrow> (nat \<Rightarrow> json) \<Rightarrow> nat \<Rightarrow> (nat \<times> json) list" where
  "rewritten_pairs n E L i = concat (map (\<lambda>j. [(n + j, E j), (j, L j)]) [0 ..< i])"

text \<open>What the two entries made from a portrait entry have to be.\<close>

definition derived_pair :: "json \<Rightarrow> json \<Rightarrow> bool" where
  "derived_pair e l =
     (\<exists>d d'. e = JObj d \<and> l = JObj d'
        \<and> map_of d ''Action'' = Some (JStr ''EditImage'')
        \<and> map_of d' ''Action'' = Some (JStr ''Load'')
        \<and> map_of d ''PatchMode'' = None \<and> map_of d' ''PatchMode'' = None)"

section \<open>Example directories\<close>

text \<open>A mod directory, and manifests with and without the dependency records.\<close>

definition ex_mod :: ppath where
  "ex_mod = (True, [''mod''])"

definition ex_manifest :: ppath where
  "ex_manifest = (True, [''mod'', ''manifest.json''])"

definition fs_pytk :: fs where
  "fs_pytk = (\<lambda>k. None)([''mod'', ''manifest.json''] \<mapsto>
      JsonFile (JObj [(''Name'', JStr ''Portraits''), (''Dependencies'', JList [PYTK_DEPENDENCY])]))"

definition fs_two_pytk :: fs where
  "fs_two_pytk = (\<lambda>k. None)([''mod'', ''manifest.json''] \<mapsto>
      JsonFile (JObj [(''Dependencies'', JList [PYTK_DEPENDENCY, PYTK_DEPENDENCY])]))"

definition fs_two_hd :: fs where
  "fs_two_hd = (\<lambda>k. None)([''mod'', ''manifest.json''] \<mapsto>
      JsonFile (JObj [(''Dependencies'', JList [HD_PORTRAITS_DEPENDENCY, HD_PORTRAITS_DEPENDENCY])]))"

definition fs_no_deps :: fs where
  "fs_no_deps = (\<lambda>k. None)([''mod'', ''manifest.json''] \<mapsto>
      JsonFile (JObj [(''Name'', JStr ''Portraits'')]))"

text \<open>A mod with one portrait, its legacy sidecar, and a target sidecar left on disk.\<close>

definition entry_abigail :: json where
  "entry_abigail =
     JObj [(''Action'', JStr ''Load''), (''Target'', JStr ''Portraits/Abigail''),
           (''FromFile'', JStr ''assets/Abigail.png''), (''PatchMode'', JStr ''Replace'')]"

definition fs_abigail :: fs where
  "fs_abigail = (\<lambda>k. None)
     ([''mod'', ''content.json''] \<mapsto>
        JsonFile (JObj [(''Format'', JStr ''1.19.0''), (''Changes'', JList [entry_abigail])]),
      [''mod'', ''manifest.json''] \<mapsto>
        JsonFile (JObj [(''Name'', JStr ''Portraits''), (''Dependencies'', JList [PYTK_DEPENDENCY])]),
      [''mod'', ''assets'', ''Abigail.png''] \<mapsto> OtherFile,
      [''mod'', ''assets'', ''Abigail.pytk.json''] \<mapsto> JsonFile (JObj [(''Scale'', JInt 2)]),
      [''mod'', ''assets'', ''Abigail.json''] \<mapsto> JsonFile (JObj [(''Size'', JInt 64)]))"

definition ex_portrait :: ppath where
  "ex_portrait = (True, [''mod'', ''assets'', ''Abigail.png''])"

definition ex_metadata :: ppath where
  "ex_metadata = (True, [''mod'', ''assets'', ''Abigail.json''])"


definition fs_no_sidecar :: fs where
  "fs_no_sidecar = (\<lambda>k. None)([''mod'', ''assets'', ''Abigail.png''] \<mapsto> OtherFile)"

text \<open>An entry that is no portrait, and a document that holds two of them before a
  portrait and three after it.\<close>

definition entry_events :: json where
  "entry_events = JObj [(''Action'', JStr ''EditData''), (''Target'', JStr ''Data/Events'')]"

definition ex_hd_portraits :: ppath where
  "ex_hd_portraits = (False, [''Mods'', ''HDPortraits''])"

definition ex_hd_portraits_patch :: ppath where
  "ex_hd_portraits_patch = (False, [''Mods'', ''HDPortraitsPatch''])"

definition no_glob :: "fs \<Rightarrow> ppath \<Rightarrow> string \<Rightarrow> error + ppath list" where
  "no_glob f d pattern = Inr []"

definition load_abigail :: json where
  "load_abigail =
     JObj [(''Action'', JStr ''Load''), (''Target'', JStr ''Mods/HDPortraits/Abigail''),
           (''FromFile'', JStr ''assets/Abigail.json'')]"

definition edit_abigail :: json where
  "edit_abigail =
     JObj [(''Action'', JStr ''EditImage''), (''Target'', JStr ''Mods/HDPortraitsPatch/Abigail''),
           (''FromFile'', JStr ''assets/Abigail.png'')]"

text \<open>A portrait entry below a parent segment that is not literally \<open>Portraits\<close>.\<close>

definition entry_old :: json where
  "entry_old =
     JObj [(''Action'', JStr ''Load''), (''Target'', JStr ''Portraits.old/Abigail''),
           (''FromFile'', JStr ''assets/Abigail.png'')]"

text \<open>A templated portrait with two seasonal images on disk, and a glob that finds them.\<close>

definition entry_season :: json where
  "entry_season =
     JObj [(''Action'', JStr ''Load''), (''Target'', JStr ''Portraits/Abigail''),
           (''FromFile'', JStr ''assets/Abigail_{{season}}.png'')]"

definition fs_seasons :: fs where
  "fs_seasons = (\<lambda>k. None)
     ([''mod'', ''assets'', ''Abigail_spring.png''] \<mapsto> OtherFile,
      [''mod'', ''assets'', ''Abigail_spring.pytk.json''] \<mapsto> JsonFile (JObj [(''Scale'', JInt 2)]),
      [''mod'', ''assets'', ''Abigail_summer.png''] \<mapsto> OtherFile,
      [''mod'', ''assets'', ''Abigail_summer.pytk.json''] \<mapsto> JsonFile (JObj [(''Scale'', JInt 4)]))"

definition glob_seasons :: "fs \<Rightarrow> ppath \<Rightarrow> string \<Rightarrow> error + ppath list" where
  "glob_seasons f d pattern =
     (if pattern = ''assets/Abigail_*.png''
      then Inr [joinpath d (PurePath ''assets/Abigail_spring.png''),
                joinpath d (PurePath ''assets/Abigail_summer.png'')]
      else Inr [])"

text \<open>A mod whose portrait image is named like the patch document.\<close>

definition entry_content :: json where
  "entry_content =
     JObj [(''Action'', JStr ''Load''), (''Target'', JStr ''Portraits/content''),
           (''FromFile'', JStr ''content.png'')]"

definition fs_collision :: fs where
  "fs_collision = (\<lambda>k. None)
     ([''mod'', ''content.json''] \<mapsto>
        JsonFile (JObj [(''Format'', JStr ''1.19.0''), (''Changes'', JList [entry_content])]),
      [''mod'', ''manifest.json''] \<mapsto>
        JsonFile (JObj [(''Name'', JStr ''Portraits''), (''Dependencies'', JList [PYTK_DEPENDENCY])]),
      [''mod'', ''content.png''] \<mapsto> OtherFile,
      [''mod'', ''content.pytk.json''] \<mapsto> JsonFile (JObj [(''Scale'', JInt 2)]))"

text \<open>A portrait templated in a directory name, its image in one such directory, and a
  glob that would find it.\<close>

definition entry_season_dir :: json where
  "entry_season_dir =
     JObj [(''Action'', JStr ''Load''), (''Target'', JStr ''Portraits/Abigail''),
           (''FromFile'', JStr ''assets/{{season}}/Abigail.png'')]"

definition fs_season_dir :: fs where
  "fs_season_dir = (\<lambda>k. None)
     ([''mod'', ''assets'', ''spring'', ''Abigail.png''] \<mapsto> OtherFile,
      [''mod'', ''assets'', ''spring'', ''Abigail.pytk.json''] \<mapsto>
        JsonFile (JObj [(''Scale'', JInt 2)]))"

definition glob_season_dir :: "fs \<Rightarrow> ppath \<Rightarrow> string \<Rightarrow> error + ppath list" where
  "glob_season_dir f d pattern =
     (if pattern = ''assets/*/Abigail.png''
      then Inr [joinpath d (PurePath ''assets/spring/Abigail.png'')]
      else Inr [])"

text \<open>One of the seasonal images again, as an entry of its own.\<close>

definition entry_summer :: json where
  "entry_summer =
     JObj [(''Action'', JStr ''Load''), (''Target'', JStr ''Portraits/Abigail''),
           (''FromFile'', JStr ''assets/Abigail_summer.png'')]"

section \<open>The dependency rewrite\<close>

lemma dep_neq: "HD_PORTRAITS_DEPENDENCY \<noteq> PYTK_DEPENDENCY"
  by (simp add: HD_PORTRAITS_DEPENDENCY_def PYTK_DEPENDENCY_def)

lemma count_list_remove1_other: "x \<noteq> y \<Longrightarrow> count_list (remove1 x xs) y = count_list xs y"
  by (induction xs) auto

lemma count_le1_remove1: "count_list xs x \<le> 1 \<Longrightarrow> x \<notin> set (remove1 x xs)"
  by (induction xs) (auto simp: count_list_0_iff)

lemma hd_in_rewrite: "HD_PORTRAITS_DEPENDENCY \<in> set (rewrite_dependencies deps)"
  using dep_neq by (auto simp: rewrite_dependencies_def)

lemma rewrite_idem:
  assumes "count_list deps PYTK_DEPENDENCY \<le> 1"
  shows "rewrite_dependencies (rewrite_dependencies deps) = rewrite_dependencies deps"
proof -
  let ?d = "if HD_PORTRAITS_DEPENDENCY \<notin> set deps then deps @ [HD_PORTRAITS_DEPENDENCY] else deps"
  have "count_list ?d PYTK_DEPENDENCY \<le> 1"
    using assms dep_neq by auto
  then have "PYTK_DEPENDENCY \<notin> set (rewrite_dependencies deps)"
    unfolding rewrite_dependencies_def by (rule count_le1_remove1)
  then have "remove1 PYTK_DEPENDENCY (rewrite_dependencies deps) = rewrite_dependencies deps"
    by (simp add: remove1_idem)
  moreover have "rewrite_dependencies (rewrite_dependencies deps)
      = remove1 PYTK_DEPENDENCY (rewrite_dependencies deps)"
    using hd_in_rewrite [of deps] by (subst rewrite_dependencies_def) simp
  ultimately show ?thesis by simp
qed

lemma rewrite_count_hd:
  assumes "count_list deps HD_PORTRAITS_DEPENDENCY \<le> 1"
  shows "count_list (rewrite_dependencies deps) HD_PORTRAITS_DEPENDENCY = 1"
proof (cases "HD_PORTRAITS_DEPENDENCY \<in> set deps")
  case True
  then have "count_list deps HD_PORTRAITS_DEPENDENCY \<noteq> 0" by (simp add: count_list_0_iff)
  with assms have "count_list deps HD_PORTRAITS_DEPENDENCY = 1" by simp
  with True show ?thesis
    using dep_neq by (simp add: rewrite_dependencies_def count_list_remove1_other)
next
  case False
  then have "count_list deps HD_PORTRAITS_DEPENDENCY = 0" by (simp add: count_list_0_iff)
  with False show ?thesis
    using dep_neq by (simp add: rewrite_dependencies_def count_list_remove1_other)
qed

lemma update_dependencies_present:
  assumes "load_json f mf = Inr (JObj al)" and "map_of al ''Dependencies'' = Some (JList deps)"
  shows "update_dependencies f mf =
     Inr (AList.update ''GeneratedBy'' (JStr generated_by)
            (AList.update ''Dependencies'' (JList (rewrite_dependencies deps)) al))"
  using assms by (simp add: update_dependencies_def default_list_def)

lemma update_dependencies_absent:
  assumes "load_json f mf = Inr (JObj al)" and "map_of al ''Dependencies'' = None"
  shows "update_dependencies f mf =
     Inr (AList.update ''GeneratedBy'' (JStr generated_by)
            (AList.update ''Dependencies'' (JList (rewrite_dependencies []))
               (al @ [(''Dependencies'', JList [])])))"
  using assms by (simp add: update_dependencies_def default_list_def map_add_def)

lemma load_json_written: "load_json (f(resolve p \<mapsto> JsonFile j)) p = Inr j"
  by (simp add: load_json_def)

lemma resolve_ex_manifest: "resolve ex_manifest = [''mod'', ''manifest.json'']"
  by (simp add: resolve_def ex_manifest_def)

text \<open>
  C5 (as amended): given a manifest whose \<open>Dependencies\<close> is a list,
  \<open>update_dependencies\<close> appends the HDPortraits record exactly when it is not already in
  the list and then removes the first occurrence of the Platonymous.Toolkit record, which
  changes nothing when that record is absent. When the list holds the Toolkit record at
  most once, rewriting the rewritten manifest again gives the same manifest; when it
  holds the HDPortraits record at most once, the rewritten list holds it exactly once.
\<close>

theorem update_dependencies_rewrite:
  assumes "load_json f mf = Inr (JObj al)" and "map_of al ''Dependencies'' = Some (JList deps)"
  shows "\<exists>r ds. update_dependencies f mf = Inr r
      \<and> map_of r ''Dependencies'' = Some (JList ds)
      \<and> ds = remove1 PYTK_DEPENDENCY
                (if HD_PORTRAITS_DEPENDENCY \<in> set deps then deps
                 else deps @ [HD_PORTRAITS_DEPENDENCY])
      \<and> (PYTK_DEPENDENCY \<notin> set deps \<longrightarrow>
           ds = (if HD_PORTRAITS_DEPENDENCY \<in> set deps then deps
                 else deps @ [HD_PORTRAITS_DEPENDENCY]))
      \<and> (count_list deps PYTK_DEPENDENCY \<le> 1 \<longrightarrow>
           update_dependencies (f(resolve mf \<mapsto> JsonFile (JObj r))) mf = Inr r)
      \<and> (count_list deps HD_PORTRAITS_DEPENDENCY \<le> 1 \<longrightarrow>
           count_list ds HD_PORTRAITS_DEPENDENCY = 1)"
proof -
  let ?ds = "rewrite_dependencies deps"
  let ?r = "AList.update ''GeneratedBy'' (JStr generated_by)
              (AList.update ''Dependencies'' (JList ?ds) al)"
  have r: "update_dependencies f mf = Inr ?r"
    using assms by (rule update_dependencies_present)
  have m: "map_of ?r ''Dependencies'' = Some (JList ?ds)"
    by (simp add: update_conv')
  have d: "?ds = remove1 PYTK_DEPENDENCY
                (if HD_PORTRAITS_DEPENDENCY \<in> set deps then deps
                 else deps @ [HD_PORTRAITS_DEPENDENCY])"
    by (simp add: rewrite_dependencies_def)
  have n: "PYTK_DEPENDENCY \<notin> set deps \<longrightarrow>
           ?ds = (if HD_PORTRAITS_DEPENDENCY \<in> set deps then deps
                 else deps @ [HD_PORTRAITS_DEPENDENCY])"
    using dep_neq by (auto simp: rewrite_dependencies_def remove1_idem)
  have i: "update_dependencies (f(resolve mf \<mapsto> JsonFile (JObj ?r))) mf = Inr ?r"
    if c: "count_list deps PYTK_DEPENDENCY \<le> 1"
  proof -
    have "update_dependencies (f(resolve mf \<mapsto> JsonFile (JObj ?r))) mf =
        Inr (AList.update ''GeneratedBy'' (JStr generated_by)
              (AList.update ''Dependencies'' (JList (rewrite_dependencies ?ds)) ?r))"
      using load_json_written m by (rule update_dependencies_present)
    also have "rewrite_dependencies ?ds = ?ds"
      using c by (rule rewrite_idem)
    also have "AList.update ''Dependencies'' (JList ?ds) ?r = ?r"
      using m by (rule AList.update_triv)
    also have "AList.update ''GeneratedBy'' (JStr generated_by) ?r = ?r"
      by (rule AList.update_triv) (simp add: update_conv')
    finally show ?thesis .
  qed
  have h: "count_list deps HD_PORTRAITS_DEPENDENCY \<le> 1 \<longrightarrow>
           count_list ?ds HD_PORTRAITS_DEPENDENCY = 1"
    by (simp add: rewrite_count_hd)
  from r m d n i h show ?thesis by blast
qed

theorem update_dependencies_rewrite_witness:
  "\<exists>r. update_dependencies fs_pytk ex_manifest = Inr r
      \<and> map_of r ''Dependencies'' = Some (JList [HD_PORTRAITS_DEPENDENCY])
      \<and> update_dependencies (fs_pytk(resolve ex_manifest \<mapsto> JsonFile (JObj r))) ex_manifest = Inr r"
proof -
  have l: "load_json fs_pytk ex_manifest =
     Inr (JObj [(''Name'', JStr ''Portraits''), (''Dependencies'', JList [PYTK_DEPENDENCY])])"
    by (simp add: load_json_def fs_pytk_def resolve_ex_manifest)
  have m: "map_of [(''Name'', JStr ''Portraits''), (''Dependencies'', JList [PYTK_DEPENDENCY])]
             ''Dependencies'' = Some (JList [PYTK_DEPENDENCY])"
    by simp
  from update_dependencies_rewrite [OF l m] dep_neq show ?thesis
    by auto
qed

text \<open>
  With two Toolkit records the second rewrite removes the second of them, so it is not
  the identity on the output of the first; with two HDPortraits records both stay.
\<close>

theorem update_dependencies_twice_counterexample:
  "update_dependencies fs_two_pytk ex_manifest =
     Inr [(''Dependencies'', JList [PYTK_DEPENDENCY, HD_PORTRAITS_DEPENDENCY]),
          (''GeneratedBy'', JStr generated_by)]
   \<and> update_dependencies
        (fs_two_pytk(resolve ex_manifest \<mapsto> JsonFile (JObj
           [(''Dependencies'', JList [PYTK_DEPENDENCY, HD_PORTRAITS_DEPENDENCY]),
            (''GeneratedBy'', JStr generated_by)]))) ex_manifest =
     Inr [(''Dependencies'', JList [HD_PORTRAITS_DEPENDENCY]),
          (''GeneratedBy'', JStr generated_by)]
   \<and> update_dependencies fs_two_hd ex_manifest =
     Inr [(''Dependencies'', JList [HD_PORTRAITS_DEPENDENCY, HD_PORTRAITS_DEPENDENCY]),
          (''GeneratedBy'', JStr generated_by)]"
  using dep_neq
  by (simp add: update_dependencies_def load_json_def default_list_def fs_two_pytk_def
      fs_two_hd_def resolve_ex_manifest rewrite_dependencies_def)

text \<open>
  C10: on a manifest object without a \<open>Dependencies\<close> key, \<open>update_dependencies\<close>
  does not fail, and the \<open>Dependencies\<close> of its result is exactly the list holding the
  HDPortraits record.
\<close>

theorem update_dependencies_missing_key:
  assumes "load_json f mf = Inr (JObj al)" and "map_of al ''Dependencies'' = None"
  shows "\<exists>r. update_dependencies f mf = Inr r
      \<and> map_of r ''Dependencies'' = Some (JList [HD_PORTRAITS_DEPENDENCY])"
proof -
  have "rewrite_dependencies [] = [HD_PORTRAITS_DEPENDENCY]"
    using dep_neq by (simp add: rewrite_dependencies_def)
  then show ?thesis
    using update_dependencies_absent [OF assms] by (simp add: update_conv')
qed

theorem update_dependencies_missing_key_witness:
  "\<exists>r. update_dependencies fs_no_deps ex_manifest = Inr r
      \<and> map_of r ''Dependencies'' = Some (JList [HD_PORTRAITS_DEPENDENCY])"
proof -
  have l: "load_json fs_no_deps ex_manifest = Inr (JObj [(''Name'', JStr ''Portraits'')])"
    by (simp add: load_json_def fs_no_deps_def resolve_ex_manifest)
  have m: "map_of [(''Name'', JStr ''Portraits'')] ''Dependencies'' = None"
    by simp
  from update_dependencies_missing_key [OF l m] show ?thesis .
qed

section \<open>The metadata file of a portrait\<close>

lemma split_chr_none: "c \<notin> set s \<Longrightarrow> split_chr c s = [s]"
  by (induction s) auto

lemma PurePath_single:
  assumes "CHR ''/'' \<notin> set n" and "n \<noteq> []" and "n \<noteq> ''.''"
  shows "PurePath n = (False, [n])"
  using assms by (cases n) (auto simp: PurePath_def split_chr_none)

lemma with_name_single:
  assumes "name p \<noteq> []" and "CHR ''/'' \<notin> set n" and "n \<noteq> []" and "n \<noteq> ''.''"
  shows "with_name p n = Inr (fst p, butlast (snd p) @ [n])"
proof -
  have "last n \<noteq> CHR ''/''" using assms(2,3) by (metis last_in_set)
  then show ?thesis using assms by (simp add: with_name_def PurePath_single)
qed

lemma name_replaced: "name (a, xs @ [n]) = n"
  by (simp add: name_def)

lemma with_suffix_json:
  assumes "n \<noteq> []"
  shows "with_suffix (a, xs @ [n]) ''.json'' = Inr (a, xs @ [stem_of n @ ''.json''])"
  using assms by (simp add: with_suffix_def name_replaced)

lemma rfind_dot_none: "CHR ''.'' \<notin> set n \<Longrightarrow> rfind_dot n = None"
  by (induction n) auto

lemma stem_of_no_dot: "CHR ''.'' \<notin> set n \<Longrightarrow> stem_of n = n"
  by (simp add: stem_of_def rfind_dot_none)

lemma stem_of_nonempty: "n \<noteq> [] \<Longrightarrow> stem_of n \<noteq> []"
  by (auto simp: stem_of_def split: option.splits)

text \<open>
  C6 (as amended): for a source image path with a name, the metadata file lies in the
  directory of the image; its name is built from a base name, which is the stem of the
  image when the variant is absent or the stem already ends with it, and otherwise the
  stem, the separator and the variant. The base name loses its own last dot-suffix, if
  it has one, and gets \<open>.json\<close>; a base name without a dot is kept whole.
\<close>

theorem get_variant_metadata_file_name:
  assumes "name portrait_file \<noteq> []"
    and "base = (case variant of
                   None \<Rightarrow> stem portrait_file
                 | Some v \<Rightarrow> (if endswith (stem portrait_file) v then stem portrait_file
                              else stem portrait_file @ ''_'' @ v))"
    and "CHR ''/'' \<notin> set base" and "base \<noteq> ''.''"
  shows "get_variant_metadata_file portrait_file variant ''_'' =
           Inr (fst portrait_file, butlast (snd portrait_file) @ [stem_of base @ ''.json''])
       \<and> (CHR ''.'' \<notin> set base \<longrightarrow> stem_of base = base)"
proof -
  have ne: "base \<noteq> []"
    using assms(1,2) stem_of_nonempty [of "name portrait_file"]
    by (auto simp: stem_def split: option.splits if_splits)
  have "with_name portrait_file base = Inr (fst portrait_file, butlast (snd portrait_file) @ [base])"
    using assms(1,3) ne assms(4) by (rule with_name_single)
  moreover have "with_suffix (fst portrait_file, butlast (snd portrait_file) @ [base]) ''.json''
      = Inr (fst portrait_file, butlast (snd portrait_file) @ [stem_of base @ ''.json''])"
    using ne by (rule with_suffix_json)
  ultimately have "get_variant_metadata_file portrait_file variant ''_'' =
           Inr (fst portrait_file, butlast (snd portrait_file) @ [stem_of base @ ''.json''])"
    unfolding get_variant_metadata_file_def assms(2) [symmetric] by simp
  then show ?thesis by (simp add: stem_of_no_dot)
qed

lemma stem_Abigail_Witch: "stem (True, [''mod'', ''assets'', ''Abigail_Witch.png'']) = ''Abigail_Witch''"
  by (simp add: stem_def name_def stem_of_def)

lemma stem_Abigail: "stem (True, [''mod'', ''assets'', ''Abigail.png'']) = ''Abigail''"
  by (simp add: stem_def name_def stem_of_def)

theorem get_variant_metadata_file_name_witness:
  "get_variant_metadata_file (True, [''mod'', ''assets'', ''Abigail_Witch.png'']) (Some ''Witch'') ''_''
     = Inr (True, [''mod'', ''assets'', ''Abigail_Witch.json''])
   \<and> get_variant_metadata_file (True, [''mod'', ''assets'', ''Abigail.png'']) (Some ''Witch'') ''_''
     = Inr (True, [''mod'', ''assets'', ''Abigail_Witch.json''])"
proof -
  have a: "name (True, [''mod'', ''assets'', ''Abigail_Witch.png'']) \<noteq> []"
    by (simp add: name_def)
  have b: "''Abigail_Witch'' = (case Some ''Witch'' of
                   None \<Rightarrow> stem (True, [''mod'', ''assets'', ''Abigail_Witch.png''])
                 | Some v \<Rightarrow> (if endswith (stem (True, [''mod'', ''assets'', ''Abigail_Witch.png''])) v
                              then stem (True, [''mod'', ''assets'', ''Abigail_Witch.png''])
                              else stem (True, [''mod'', ''assets'', ''Abigail_Witch.png'']) @ ''_'' @ v))"
    by (simp add: stem_Abigail_Witch endswith_def)
  have c: "name (True, [''mod'', ''assets'', ''Abigail.png'']) \<noteq> []"
    by (simp add: name_def)
  have d: "''Abigail_Witch'' = (case Some ''Witch'' of
                   None \<Rightarrow> stem (True, [''mod'', ''assets'', ''Abigail.png''])
                 | Some v \<Rightarrow> (if endswith (stem (True, [''mod'', ''assets'', ''Abigail.png''])) v
                              then stem (True, [''mod'', ''assets'', ''Abigail.png''])
                              else stem (True, [''mod'', ''assets'', ''Abigail.png'']) @ ''_'' @ v))"
    by (simp add: stem_Abigail endswith_def)
  have e: "CHR ''/'' \<notin> set ''Abigail_Witch''" "''Abigail_Witch'' \<noteq> ''.''" by simp_all
  from get_variant_metadata_file_name [OF a b e] get_variant_metadata_file_name [OF c d e]
  show ?thesis by simp
qed

text \<open>
  The stem of \<open>Abigail.v2.png\<close> is \<open>Abigail.v2\<close>, and the metadata file is
  \<open>Abigail.json\<close>: \<open>with_suffix\<close> takes \<open>.v2\<close> for a suffix and replaces it.
\<close>

theorem get_variant_metadata_file_dotted_counterexample:
  "stem (True, [''mod'', ''assets'', ''Abigail.v2.png'']) = ''Abigail.v2''
   \<and> get_variant_metadata_file (True, [''mod'', ''assets'', ''Abigail.v2.png'']) None ''_''
     = Inr (True, [''mod'', ''assets'', ''Abigail.json''])"
  by (simp add: get_variant_metadata_file_def stem_def name_def stem_of_def with_name_def
      with_suffix_def PurePath_def)

section \<open>Building a sidecar\<close>

lemma ex_pytk_file:
  "with_suffix ex_portrait ''.pytk.json'' = Inr (True, [''mod'', ''assets'', ''Abigail.pytk.json''])"
  by (simp add: with_suffix_def ex_portrait_def name_def stem_of_def)

lemma resolve_ex_pytk: "resolve (True, [''mod'', ''assets'', ''Abigail.pytk.json'']) = [''mod'', ''assets'', ''Abigail.pytk.json'']"
  by (simp add: resolve_def)



text \<open>
  C8: for a portrait image whose legacy \<open>.pytk.json\<close> sidecar is not on disk,
  \<open>create_metadata_json\<close> returns no metadata and raises nothing, and the step of the
  loop that would write the target sidecar returns normally with the files on disk as
  they were: it only records the metadata file in the tracking map.
\<close>

theorem missing_legacy_sidecar_skipped:
  assumes "with_suffix portrait_file ''.pytk.json'' = Inr pytk_file"
    and "files st (resolve pytk_file) = None"
  shows "create_metadata_json (files st) portrait_file target_name = Inr None
       \<and> write_sidecar content_patch_dir copy_dir kind portrait_file metadata_file target_name st =
           Inr (st\<lparr>parsed_metadata_files :=
                      (parsed_metadata_files st)(resolve metadata_file \<mapsto> kind)\<rparr>)"
  using assms by (simp add: create_metadata_json_def write_sidecar_def)

theorem missing_legacy_sidecar_skipped_witness:
  "create_metadata_json fs_no_sidecar ex_portrait ''Mods/HDPortraitsPatch/Abigail'' = Inr None
   \<and> write_sidecar ex_mod None INDIVIDUAL ex_portrait ex_metadata ''Mods/HDPortraitsPatch/Abigail''
        \<lparr>files = fs_no_sidecar, Changes = [], parsed_metadata_files = (\<lambda>k. None), sidecar_log = []\<rparr>
      = Inr \<lparr>files = fs_no_sidecar, Changes = [],
             parsed_metadata_files = [[''mod'', ''assets'', ''Abigail.json''] \<mapsto> INDIVIDUAL],
             sidecar_log = []\<rparr>"
proof -
  have a: "files \<lparr>files = fs_no_sidecar, Changes = [], parsed_metadata_files = (\<lambda>k. None),
              sidecar_log = []\<rparr> (resolve (True, [''mod'', ''assets'', ''Abigail.pytk.json''])) = None"
    by (simp add: fs_no_sidecar_def resolve_ex_pytk)
  from missing_legacy_sidecar_skipped [OF ex_pytk_file a, of "''Mods/HDPortraitsPatch/Abigail''"
      ex_mod None INDIVIDUAL ex_metadata]
  show ?thesis by (simp add: resolve_def ex_metadata_def)
qed

section \<open>What one pass of the loop does to the state\<close>

lemma write_sidecar_cases:
  assumes "write_sidecar cpd cd kind pf mf t st = Inr st'"
  shows "(create_metadata_json (files st) pf t = Inr None
          \<and> st' = st\<lparr>parsed_metadata_files :=
                        (parsed_metadata_files st)(resolve mf \<mapsto> kind)\<rparr>)
       \<or> (\<exists>j f. create_metadata_json (files st) pf t = Inr (Some j)
              \<and> write_and_backup (files st) mf j cpd cd True = Inr f
              \<and> st' = st\<lparr>parsed_metadata_files := (parsed_metadata_files st)(resolve mf \<mapsto> kind),
                         files := f,
                         sidecar_log := sidecar_log st @ [(resolve mf, kind)]\<rparr>)"
  using assms
  by (auto simp: write_sidecar_def Let_def split: sum.splits option.splits)

lemma write_sidecar_Changes:
  "write_sidecar cpd cd kind pf mf t st = Inr st' \<Longrightarrow> Changes st' = Changes st"
  by (drule write_sidecar_cases) auto

lemma glob_loop_Changes:
  "glob_loop cpd cd v t gs st = Inr st' \<Longrightarrow> Changes st' = Changes st"
proof (induction gs arbitrary: st)
  case Nil
  then show ?case by simp
next
  case (Cons g gs)
  then show ?case
    by (auto split: sum.splits if_splits dest: write_sidecar_Changes)
qed

lemma sidecars_Changes:
  "sidecars glob cpd cd v pf rel mf t st = Inr st' \<Longrightarrow> Changes st' = Changes st"
  by (auto simp: sidecars_def split: if_splits sum.splits
      dest: glob_loop_Changes write_sidecar_Changes)

lemma patch_item_cases:
  assumes "patch_item glob cpd cd hp hpp n index st = Inr st'" and "st' \<noteq> st"
  shows "\<exists>li pi v pf rel mf t.
            sidecars glob cpd cd v pf rel mf t
              (st\<lparr>Changes := list_insert (2 * index) (n + index, pi)
                                 (set_object index li (Changes st))\<rparr>) = Inr st'"
  using assms unfolding patch_item_def Let_def
  apply (simp del: split_paired_Ex split: option.splits json.splits sum.splits if_splits)
  apply (intro exI)
  apply assumption
  done

lemma patch_item_Changes:
  assumes "patch_item glob cpd cd hp hpp n index st = Inr st'" and "st' \<noteq> st"
  shows "\<exists>li p. Changes st' =
           list_insert (2 * index) (n + index, p) (set_object index li (Changes st))"
proof -
  from patch_item_cases [OF assms] show ?thesis
    apply (elim exE)
    apply (drule sidecars_Changes)
    apply (intro exI)
    apply simp
    done
qed

lemma patch_item_skip:
  assumes "map_of (Changes st) index = Some (JObj d)" and "get_str d ''Target'' = Inr t"
    and "stem (parent (PurePath t)) \<noteq> ''Portraits''"
  shows "patch_item glob cpd cd hp hpp n index st = Inr st"
  using assms by (simp add: patch_item_def)

section \<open>Entries that are no portraits\<close>

lemma set_object_fst: "map fst (set_object i v cs) = map fst cs"
  by (induction cs) (auto simp: set_object_def)

lemma set_object_other: "(j, e) \<in> set cs \<Longrightarrow> j \<noteq> i \<Longrightarrow> (j, e) \<in> set (set_object i v cs)"
  by (induction cs) (auto simp: set_object_def)

lemma set_list_insert: "set (list_insert k x xs) = insert x (set xs)"
proof -
  have "set (take k xs) \<union> set (drop k xs) = set xs"
    by (metis append_take_drop_id set_append)
  then show ?thesis by (auto simp: list_insert_def)
qed

lemma map_list_insert: "map g (list_insert k x xs) = list_insert k (g x) (map g xs)"
  by (simp add: list_insert_def take_map drop_map)

lemma distinct_list_insert: "distinct (list_insert k y ys) \<longleftrightarrow> y \<notin> set ys \<and> distinct ys"
proof -
  have a: "set (take k ys) \<union> set (drop k ys) = set ys"
    by (metis append_take_drop_id set_append)
  have b: "distinct (take k ys @ drop k ys) = distinct ys"
    by simp
  show ?thesis
    using a b unfolding list_insert_def by (auto simp del: append_take_drop_id)
qed

lemma patch_item_ids:
  assumes "patch_item glob cpd cd hp hpp n index st = Inr st'"
  shows "map fst (Changes st') = map fst (Changes st)
       \<or> map fst (Changes st') = list_insert (2 * index) (n + index) (map fst (Changes st))"
proof (cases "st' = st")
  case True
  then show ?thesis by simp
next
  case False
  from patch_item_Changes [OF assms(1) False] obtain li p where
    "Changes st' = list_insert (2 * index) (n + index, p) (set_object index li (Changes st))"
    by (elim exE)
  then show ?thesis by (simp add: map_list_insert set_object_fst)
qed

lemma patch_item_keeps_other:
  assumes "patch_item glob cpd cd hp hpp n index st = Inr st'"
    and "(j, e) \<in> set (Changes st)" and "j \<noteq> index"
  shows "(j, e) \<in> set (Changes st')"
proof (cases "st' = st")
  case True
  with assms(2) show ?thesis by simp
next
  case False
  from patch_item_Changes [OF assms(1) False] obtain li p where
    "Changes st' = list_insert (2 * index) (n + index, p) (set_object index li (Changes st))"
    by (elim exE)
  with assms(2,3) show ?thesis by (simp add: set_list_insert set_object_other)
qed

lemma patch_loop_keeps:
  assumes "patch_loop glob cpd cd hp hpp n js st = Inr st'"
    and "distinct (map fst (Changes st))" and "distinct js"
    and "\<forall>k\<in>set js. n + k \<notin> set (map fst (Changes st))"
    and "(j, JObj d) \<in> set (Changes st)"
    and "get_str d ''Target'' = Inr t" and "stem (parent (PurePath t)) \<noteq> ''Portraits''"
  shows "(j, JObj d) \<in> set (Changes st')"
  using assms(1-5)
proof (induction js arbitrary: st)
  case Nil
  then show ?case by simp
next
  case (Cons index rest)
  from Cons.prems(1) obtain st1 where
    step: "patch_item glob cpd cd hp hpp n index st = Inr st1" and
    loop: "patch_loop glob cpd cd hp hpp n rest st1 = Inr st'"
    by (auto split: sum.splits)
  have fresh: "n + index \<notin> set (map fst (Changes st))"
    using Cons.prems(4) by simp
  have ids: "set (map fst (Changes st1)) \<subseteq> insert (n + index) (set (map fst (Changes st)))"
  proof -
    from patch_item_ids [OF step]
    have "set (map fst (Changes st1)) = set (map fst (Changes st))
        \<or> set (map fst (Changes st1)) = insert (n + index) (set (map fst (Changes st)))"
      by (metis set_list_insert)
    then show ?thesis by blast
  qed
  have d1: "distinct (map fst (Changes st1))"
    using patch_item_ids [OF step] Cons.prems(2) fresh by (auto simp: distinct_list_insert)
  have r1: "\<forall>k\<in>set rest. n + k \<notin> set (map fst (Changes st1))"
  proof
    fix k
    assume k: "k \<in> set rest"
    then have "k \<noteq> index" using Cons.prems(3) by auto
    moreover have "n + k \<notin> set (map fst (Changes st))" using Cons.prems(4) k by simp
    ultimately show "n + k \<notin> set (map fst (Changes st1))" using ids by auto
  qed
  have m1: "(j, JObj d) \<in> set (Changes st1)"
  proof (cases "j = index")
    case True
    then have "map_of (Changes st) index = Some (JObj d)"
      using Cons.prems(2,5) by simp
    then have "patch_item glob cpd cd hp hpp n index st = Inr st"
      using assms(6,7) by (rule patch_item_skip)
    with step Cons.prems(5) show ?thesis by simp
  next
    case False
    from step Cons.prems(5) False show ?thesis by (rule patch_item_keeps_other)
  qed
  from Cons.IH [OF loop d1 _ r1 m1] Cons.prems(3) show ?case by simp
qed

text \<open>
  C3 (as amended): a Change Entry whose \<open>Target\<close> has a parent segment with a stem
  other than \<open>Portraits\<close> (the segment with its last dot-suffix removed) is in the
  output list as it was loaded, and the pass of the loop that visits it returns the state
  it was given: no file is written, and nothing is recorded or inserted.
\<close>

theorem non_portrait_entry_untouched:
  assumes "patch_changes glob cpd cd hp hpp f es = Inr st"
    and "j < length es" and "es ! j = JObj d"
    and "get_str d ''Target'' = Inr t" and "stem (parent (PurePath t)) \<noteq> ''Portraits''"
  shows "(j, es ! j) \<in> set (Changes st)
       \<and> (\<forall>s. map_of (Changes s) j = Some (es ! j) \<longrightarrow>
              patch_item glob cpd cd hp hpp (length es) j s = Inr s)"
proof -
  let ?st0 = "\<lparr>files = f, Changes = zip [0 ..< length es] es,
        parsed_metadata_files = (\<lambda>k. None), sidecar_log = []\<rparr>"
  have run: "patch_loop glob cpd cd hp hpp (length es) [0 ..< length es] ?st0 = Inr st"
    using assms(1) by (simp add: patch_changes_def)
  have a: "distinct (map fst (Changes ?st0))" by simp
  have b: "\<forall>k\<in>set [0 ..< length es]. length es + k \<notin> set (map fst (Changes ?st0))" by simp
  have c: "(j, JObj d) \<in> set (Changes ?st0)"
    using assms(2,3) by (auto simp: in_set_zip intro!: exI [of _ j])
  have "(j, JObj d) \<in> set (Changes st)"
    using run a _ b c assms(4,5) by (rule patch_loop_keeps) simp
  then show ?thesis
    using assms(3,4,5) by (simp add: patch_item_skip)
qed

lemma run_mixed:
  "(case patch_changes no_glob ex_mod None ex_hd_portraits ex_hd_portraits_patch (\<lambda>k. None)
          [entry_events, entry_abigail] of
      Inl e \<Rightarrow> None
    | Inr st \<Rightarrow> Some (Changes st))
   = Some [(0, entry_events), (1, load_abigail), (3, edit_abigail)]"
  by code_simp

theorem non_portrait_entry_untouched_witness:
  "\<exists>st. patch_changes no_glob ex_mod None ex_hd_portraits ex_hd_portraits_patch (\<lambda>k. None)
           [entry_events, entry_abigail] = Inr st
       \<and> (0, entry_events) \<in> set (Changes st)
       \<and> patch_item no_glob ex_mod None ex_hd_portraits ex_hd_portraits_patch 2 0 st = Inr st"
proof -
  from run_mixed obtain st where
    run: "patch_changes no_glob ex_mod None ex_hd_portraits ex_hd_portraits_patch (\<lambda>k. None)
           [entry_events, entry_abigail] = Inr st"
    and cs: "Changes st = [(0, entry_events), (1, load_abigail), (3, edit_abigail)]"
    by (auto split: sum.splits)
  have a: "(0::nat) < length [entry_events, entry_abigail]" by simp
  have b: "[entry_events, entry_abigail] ! 0 =
      JObj [(''Action'', JStr ''EditData''), (''Target'', JStr ''Data/Events'')]"
    by (simp add: entry_events_def)
  have c: "get_str [(''Action'', JStr ''EditData''), (''Target'', JStr ''Data/Events'')] ''Target''
      = Inr ''Data/Events''"
    by (simp add: get_str_def)
  have d: "stem (parent (PurePath ''Data/Events'')) \<noteq> ''Portraits''"
    by (simp add: stem_def parent_def PurePath_def name_def stem_of_def)
  have e: "map_of (Changes st) 0 = Some ([entry_events, entry_abigail] ! 0)"
    by (simp add: cs)
  from non_portrait_entry_untouched [OF run a b c d] e run show ?thesis
    by (auto simp: numeral_2_eq_2)
qed

text \<open>
  The parent segment \<open>Portraits.old\<close> is not \<open>Portraits\<close>, but its stem is: the entry
  is rewritten into an EditImage and a Load entry.
\<close>

theorem non_portrait_entry_counterexample:
  "name (parent (PurePath ''Portraits.old/Abigail'')) = ''Portraits.old''
   \<and> (case patch_changes no_glob ex_mod None ex_hd_portraits ex_hd_portraits_patch (\<lambda>k. None)
            [entry_old] of
        Inl e \<Rightarrow> None
      | Inr st \<Rightarrow> Some (map snd (Changes st)))
     = Some [edit_abigail, load_abigail]"
  by code_simp

section \<open>The position of the inserted entry\<close>

text \<open>
  C1 at a document whose portrait entry comes after two entries that are no portraits:
  the original entry, now the Load entry, stays at index 2, and the EditImage entry is
  inserted at index \<open>2 * 2\<close>, behind an unrelated entry.
\<close>

theorem insert_position_after_skipped_entries:
  "(case patch_changes no_glob ex_mod None ex_hd_portraits ex_hd_portraits_patch (\<lambda>k. None)
        [entry_events, entry_events, entry_abigail, entry_events, entry_events, entry_events] of
      Inl e \<Rightarrow> None
    | Inr st \<Rightarrow> Some (map snd (Changes st)))
   = Some [entry_events, entry_events, load_abigail, entry_events, edit_abigail, entry_events,
           entry_events]"
  by code_simp

text \<open>When every entry is a portrait, each EditImage entry is right before its Load
  entry, as in a document of two portraits.\<close>

lemma insert_position_all_portraits:
  "(case patch_changes no_glob ex_mod None ex_hd_portraits ex_hd_portraits_patch (\<lambda>k. None)
        [entry_abigail, entry_abigail] of
      Inl e \<Rightarrow> None
    | Inr st \<Rightarrow> Some (map snd (Changes st)))
   = Some [edit_abigail, load_abigail, edit_abigail, load_abigail]"
  by code_simp

section \<open>Sidecar writes of templated entries\<close>

lemma write_sidecar_inv:
  assumes "write_sidecar cpd cd kind pf mf t st = Inr st'" and "log_inv st"
    and "kind = GLOBBED \<longrightarrow> parsed_metadata_files st (resolve mf) = None"
  shows "log_inv st'"
proof -
  have fresh: "kind = GLOBBED \<longrightarrow> resolve mf \<notin> fst ` set (sidecar_log st)"
    using assms(2,3) by (auto simp: log_inv_def)
  from write_sidecar_cases [OF assms(1)] show ?thesis
  proof
    assume "create_metadata_json (files st) pf t = Inr None
          \<and> st' = st\<lparr>parsed_metadata_files :=
                        (parsed_metadata_files st)(resolve mf \<mapsto> kind)\<rparr>"
    then show ?thesis using assms(2) by (auto simp: log_inv_def)
  next
    assume "\<exists>j f. create_metadata_json (files st) pf t = Inr (Some j)
              \<and> write_and_backup (files st) mf j cpd cd True = Inr f
              \<and> st' = st\<lparr>parsed_metadata_files := (parsed_metadata_files st)(resolve mf \<mapsto> kind),
                         files := f,
                         sidecar_log := sidecar_log st @ [(resolve mf, kind)]\<rparr>"
    then obtain j f where st': "st' = st\<lparr>parsed_metadata_files :=
          (parsed_metadata_files st)(resolve mf \<mapsto> kind),
        files := f, sidecar_log := sidecar_log st @ [(resolve mf, kind)]\<rparr>"
      by blast
    have a: "\<forall>e \<in> set (sidecar_log st'). parsed_metadata_files st' (fst e) \<noteq> None"
    proof
      fix e
      assume "e \<in> set (sidecar_log st')"
      then have "e = (resolve mf, kind) \<or> e \<in> set (sidecar_log st)"
        by (auto simp: st')
      then show "parsed_metadata_files st' (fst e) \<noteq> None"
        using assms(2) by (auto simp: st' log_inv_def)
    qed
    have b: "distinct (map fst (filter (\<lambda>e. snd e = GLOBBED) (sidecar_log st')))"
      using assms(2) fresh by (auto simp: st' log_inv_def)
    from a b show ?thesis by (simp add: log_inv_def)
  qed
qed

lemma glob_loop_inv:
  "glob_loop cpd cd v t gs st = Inr st' \<Longrightarrow> log_inv st \<Longrightarrow> log_inv st'"
proof (induction gs arbitrary: st)
  case Nil
  then show ?case by simp
next
  case (Cons g gs)
  then show ?case
    by (auto split: sum.splits if_splits dest: write_sidecar_inv)
qed

lemma log_inv_Changes: "log_inv (st\<lparr>Changes := cs\<rparr>) = log_inv st"
  by (simp add: log_inv_def)

lemma sidecars_inv:
  "sidecars glob cpd cd v pf rel mf t st = Inr st' \<Longrightarrow> log_inv st \<Longrightarrow> log_inv st'"
  by (auto simp: sidecars_def split: if_splits sum.splits dest: glob_loop_inv write_sidecar_inv)

lemma patch_item_inv:
  assumes "patch_item glob cpd cd hp hpp n index st = Inr st'" and "log_inv st"
  shows "log_inv st'"
proof (cases "st' = st")
  case True
  with assms(2) show ?thesis by simp
next
  case False
  from patch_item_cases [OF assms(1) False] show ?thesis
    apply (elim exE)
    apply (drule sidecars_inv)
     apply (simp add: log_inv_Changes assms(2))
    apply assumption
    done
qed

lemma patch_loop_inv:
  "patch_loop glob cpd cd hp hpp n js st = Inr st' \<Longrightarrow> log_inv st \<Longrightarrow> log_inv st'"
proof (induction js arbitrary: st)
  case Nil
  then show ?case by simp
next
  case (Cons index rest)
  then show ?case
    by (auto split: sum.splits dest: patch_item_inv)
qed

lemma patch_item_elim:
  assumes "patch_item glob cpd cd hp hpp n index st = Inr st'"
  obtains (skip) d t where
      "map_of (Changes st) index = Some (JObj d)" and "get_str d ''Target'' = Inr t"
      and "stem (parent (PurePath t)) \<noteq> ''Portraits''" and "st' = st"
  | (portrait) d t ff mf mrel prel where
      "map_of (Changes st) index = Some (JObj d)" and "get_str d ''Target'' = Inr t"
      and "stem (parent (PurePath t)) = ''Portraits''"
      and "get_str d ''FromFile'' = Inr ff"
      and "get_variant_metadata_file (joinpath cpd (PurePath ff))
             (target_variant (stem (PurePath t))) [VARIANT_SEPARATOR] = Inr mf"
      and "relative_to mf cpd = Inr mrel"
      and "relative_to (joinpath cpd (PurePath ff)) cpd = Inr prel"
      and "sidecars glob cpd cd (target_variant (stem (PurePath t)))
             (joinpath cpd (PurePath ff)) prel mf
             (as_posix (joinpath hpp (PurePath (stem (PurePath t)))))
             (st\<lparr>Changes :=
                 list_insert (2 * index)
                   (n + index,
                    JObj (AList.update ''FromFile'' (JStr (as_posix prel))
                           (AList.update ''Target''
                              (JStr (as_posix (joinpath hpp (PurePath (stem (PurePath t))))))
                              (AList.update ''Action'' (JStr ''EditImage'')
                                 (AList.delete ''PatchMode'' d)))))
                   (set_object index
                      (JObj (AList.update ''FromFile'' (JStr (as_posix mrel))
                             (AList.update ''Target''
                                (JStr (as_posix (joinpath hp (PurePath (stem (PurePath t))))))
                                (AList.update ''Action'' (JStr ''Load'')
                                   (AList.delete ''PatchMode'' d)))))
                      (Changes st))\<rparr>) = Inr st'"
proof -
  from assms obtain d where d: "map_of (Changes st) index = Some (JObj d)"
    by (auto simp: patch_item_def split: option.splits json.splits)
  from assms d obtain t where t: "get_str d ''Target'' = Inr t"
    by (auto simp: patch_item_def split: sum.splits)
  show thesis
  proof (cases "stem (parent (PurePath t)) = ''Portraits''")
    case False
    with assms d t have "st' = st" by (simp add: patch_item_def)
    with d t False show thesis by (rule skip)
  next
    case True
    from assms d t True obtain ff where ff: "get_str d ''FromFile'' = Inr ff"
      by (cases "get_str d ''FromFile''") (auto simp: patch_item_def Let_def)
    from assms d t True ff obtain mf where
      mf: "get_variant_metadata_file (joinpath cpd (PurePath ff))
             (target_variant (stem (PurePath t))) [VARIANT_SEPARATOR] = Inr mf"
      by (cases "get_variant_metadata_file (joinpath cpd (PurePath ff))
             (target_variant (stem (PurePath t))) [VARIANT_SEPARATOR]")
         (auto simp: patch_item_def Let_def)
    from assms d t True ff mf obtain mrel where mrel: "relative_to mf cpd = Inr mrel"
      by (cases "relative_to mf cpd") (auto simp: patch_item_def Let_def)
    from assms d t True ff mf mrel obtain prel where
      prel: "relative_to (joinpath cpd (PurePath ff)) cpd = Inr prel"
      by (cases "relative_to (joinpath cpd (PurePath ff)) cpd") (auto simp: patch_item_def Let_def)
    from assms d t True ff mf mrel prel show thesis
      by (intro portrait [OF d t True ff mf mrel prel]) (simp add: patch_item_def Let_def)
  qed
qed

section \<open>Documents of portraits only\<close>

text \<open>When every entry of the document is a portrait, the insertion index is the
  position of the entry, and the pairs come out adjacent.\<close>

lemma rewritten_pairs_Suc:
  "rewritten_pairs n E L (Suc i) = rewritten_pairs n E L i @ [(n + i, E i), (i, L i)]"
  by (simp add: rewritten_pairs_def)

lemma length_rewritten_pairs: "length (rewritten_pairs n E L i) = 2 * i"
  by (induction i) (simp_all add: rewritten_pairs_Suc, simp add: rewritten_pairs_def)

lemma rewritten_pairs_ids:
  "fst ` set (rewritten_pairs n E L i) = {j. j < i} \<union> {n + j | j. j < i}"
  by (induction i) (auto simp: rewritten_pairs_Suc rewritten_pairs_def less_Suc_eq)

lemma rewritten_pairs_cong:
  "(\<And>j. j < i \<Longrightarrow> E j = E' j \<and> L j = L' j) \<Longrightarrow>
     rewritten_pairs n E L i = rewritten_pairs n E' L' i"
  unfolding rewritten_pairs_def by (rule arg_cong [where f = concat], rule map_cong) simp_all

lemma rewritten_pairs_nth:
  "j < i \<Longrightarrow> rewritten_pairs n E L i ! (2 * j) = (n + j, E j)
     \<and> rewritten_pairs n E L i ! (2 * j + 1) = (j, L j)"
proof (induction i)
  case 0
  then show ?case by simp
next
  case (Suc i)
  show ?case
  proof (cases "j < i")
    case True
    with Suc.IH show ?thesis
      by (simp add: rewritten_pairs_Suc nth_append length_rewritten_pairs)
  next
    case False
    with Suc.prems have "j = i" by simp
    then show ?thesis
      by (simp add: rewritten_pairs_Suc nth_append length_rewritten_pairs)
  qed
qed

lemma set_object_absent: "i \<notin> fst ` set cs \<Longrightarrow> set_object i v cs = cs"
  by (induction cs) (auto simp: set_object_def)

lemma set_object_append:
  "set_object i v (xs @ ys) = set_object i v xs @ set_object i v ys"
  by (simp add: set_object_def)

lemma set_object_Cons_same: "set_object i v ((i, x) # ys) = (i, v) # set_object i v ys"
  by (simp add: set_object_def)

lemma list_insert_at_length: "length xs = k \<Longrightarrow> list_insert k x (xs @ ys) = xs @ x # ys"
  by (simp add: list_insert_def)

lemma zip_upt_drop:
  assumes "i < length es"
  shows "zip [i ..< length es] (drop i es)
         = (i, es ! i) # zip [Suc i ..< length es] (drop (Suc i) es)"
  using assms by (simp add: upt_conv_Cons Cons_nth_drop_Suc [symmetric])

lemma zip_upt_ids: "fst ` set (zip [i ..< n] xs) \<subseteq> {i ..< n}"
  by (auto dest: set_zip_leftD)

lemma patch_item_portrait_step:
  assumes step: "patch_item glob cpd cd hp hpp n i st = Inr st'"
    and cs: "Changes st = pre @ (i, JObj d) # rest"
    and len: "length pre = 2 * i"
    and pre: "i \<notin> fst ` set pre" and rest: "i \<notin> fst ` set rest"
    and t: "get_str d ''Target'' = Inr t" and p: "stem (parent (PurePath t)) = ''Portraits''"
  shows "\<exists>e l. derived_pair e l \<and> Changes st' = pre @ (n + i, e) # (i, l) # rest"
proof -
  have "map_of pre i = None"
    using pre by (simp add: map_of_eq_None_iff)
  then have m: "map_of (Changes st) i = Some (JObj d)"
    by (simp add: cs map_add_def)
  have so: "set_object i v (Changes st) = pre @ (i, v) # rest" for v
    using pre rest
    by (simp add: cs set_object_append set_object_Cons_same set_object_absent)
  from step show ?thesis
  proof (cases rule: patch_item_elim)
    case (skip d' t')
    with m t p show ?thesis by simp
  next
    case (portrait d' t' ff mf mrel prel)
    from portrait(1) m have d: "d' = d" by simp
    let ?e = "JObj (AList.update ''FromFile'' (JStr (as_posix prel))
                 (AList.update ''Target''
                    (JStr (as_posix (joinpath hpp (PurePath (stem (PurePath t'))))))
                    (AList.update ''Action'' (JStr ''EditImage'')
                       (AList.delete ''PatchMode'' d))))"
    let ?l = "JObj (AList.update ''FromFile'' (JStr (as_posix mrel))
                 (AList.update ''Target''
                    (JStr (as_posix (joinpath hp (PurePath (stem (PurePath t'))))))
                    (AList.update ''Action'' (JStr ''Load'')
                       (AList.delete ''PatchMode'' d))))"
    have "Changes st' = list_insert (2 * i) (n + i, ?e) (set_object i ?l (Changes st))"
      using sidecars_Changes [OF portrait(8)] by (simp add: d)
    then have "Changes st' = pre @ (n + i, ?e) # (i, ?l) # rest"
      using len by (simp add: so list_insert_at_length)
    moreover have "derived_pair ?e ?l"
      by (simp add: derived_pair_def update_conv' delete_conv')
    ultimately show ?thesis by blast
  qed
qed

lemma patch_loop_all_portraits:
  assumes "patch_loop glob cpd cd hp hpp (length es) [i ..< length es] st = Inr st'"
    and "i \<le> length es"
    and "Changes st = rewritten_pairs (length es) E L i @ zip [i ..< length es] (drop i es)"
    and "\<forall>j<i. derived_pair (E j) (L j)"
    and all: "\<forall>j<length es. \<exists>d t. es ! j = JObj d \<and> get_str d ''Target'' = Inr t
                \<and> stem (parent (PurePath t)) = ''Portraits''"
  shows "\<exists>E' L'. Changes st' = rewritten_pairs (length es) E' L' (length es)
           \<and> (\<forall>j<length es. derived_pair (E' j) (L' j))"
  using assms(1-4)
proof (induction "length es - i" arbitrary: i st E L)
  case 0
  then have "i = length es" by simp
  with "0.prems" show ?case by auto
next
  case (Suc k)
  then have i: "i < length es" by simp
  let ?n = "length es"
  let ?pre = "rewritten_pairs ?n E L i"
  let ?rest = "zip [Suc i ..< ?n] (drop (Suc i) es)"
  from all i obtain d t where d: "es ! i = JObj d" and t: "get_str d ''Target'' = Inr t"
    and p: "stem (parent (PurePath t)) = ''Portraits''" by blast
  from Suc.prems(1) i obtain st1 where
    step: "patch_item glob cpd cd hp hpp ?n i st = Inr st1" and
    loop: "patch_loop glob cpd cd hp hpp ?n [Suc i ..< ?n] st1 = Inr st'"
    by (auto simp: upt_conv_Cons split: sum.splits)
  have cs: "Changes st = ?pre @ (i, JObj d) # ?rest"
    using Suc.prems(3) zip_upt_drop [OF i] d by simp
  have a: "i \<notin> fst ` set ?pre"
    using i by (auto simp: rewritten_pairs_ids)
  have b: "i \<notin> fst ` set ?rest"
    using zip_upt_ids [of "Suc i" ?n "drop (Suc i) es"] by auto
  from patch_item_portrait_step [OF step cs length_rewritten_pairs a b t p]
  obtain e l where dp: "derived_pair e l"
    and cs1: "Changes st1 = ?pre @ (?n + i, e) # (i, l) # ?rest" by blast
  let ?E = "E(i := e)" and ?L = "L(i := l)"
  have "rewritten_pairs ?n ?E ?L i = ?pre"
    by (rule rewritten_pairs_cong) simp
  then have c: "Changes st1 = rewritten_pairs ?n ?E ?L (Suc i) @ ?rest"
    by (simp add: cs1 rewritten_pairs_Suc)
  have g: "\<forall>j<Suc i. derived_pair (?E j) (?L j)"
    using Suc.prems(4) dp by (auto simp: less_Suc_eq)
  have "k = ?n - Suc i" using Suc.hyps(2) by simp
  from Suc.hyps(1) [OF this loop _ c g] i show ?case by simp
qed

lemma all_portraits_adjacent:
  assumes run: "patch_changes glob cpd cd hp hpp f es = Inr st"
    and all: "\<forall>j<length es. \<exists>d t. es ! j = JObj d \<and> get_str d ''Target'' = Inr t
                \<and> stem (parent (PurePath t)) = ''Portraits''"
  shows "length (Changes st) = 2 * length es
       \<and> (\<forall>j<length es. \<exists>e l. derived_pair e l
              \<and> Changes st ! (2 * j) = (length es + j, e)
              \<and> Changes st ! (2 * j + 1) = (j, l))"
proof -
  let ?st0 = "\<lparr>files = f, Changes = zip [0 ..< length es] es,
        parsed_metadata_files = (\<lambda>k. None), sidecar_log = []\<rparr>"
  have r: "patch_loop glob cpd cd hp hpp (length es) [0 ..< length es] ?st0 = Inr st"
    using run by (simp add: patch_changes_def)
  have c: "Changes ?st0 = rewritten_pairs (length es) (\<lambda>j. JNull) (\<lambda>j. JNull) 0
             @ zip [0 ..< length es] (drop 0 es)"
    by (simp add: rewritten_pairs_def)
  have g: "\<forall>j<0::nat. derived_pair ((\<lambda>j. JNull) j) ((\<lambda>j. JNull) j)" by simp
  from patch_loop_all_portraits [OF r _ c g all] obtain E L where
    cs: "Changes st = rewritten_pairs (length es) E L (length es)"
    and dp: "\<forall>j<length es. derived_pair (E j) (L j)" by auto
  show ?thesis
    using dp rewritten_pairs_nth [of _ "length es" "length es" E L]
    by (auto simp: cs length_rewritten_pairs)
qed

section \<open>Replacing the tokens\<close>

lemma not_token_char [simp]:
  "\<not> token_char CHR ''{''" "\<not> token_char CHR ''}''" "\<not> token_char CHR ''*''"
  by (simp_all add: token_char_def)

lemma take2_eq: "take 2 s = [a, b] \<longleftrightarrow> (\<exists>r. s = a # b # r)"
  by (cases s; cases "tl s") (auto simp: numeral_2_eq_2)

lemma token_len_intro:
  assumes "body \<noteq> []" and "\<forall>x\<in>set body. token_char x"
  shows "token_len (''{{'' @ body @ ''}}'' @ rest) = Some (length body + 4)"
proof -
  have "takeWhile token_char (body @ ''}}'' @ rest) = body"
    using assms(2) by (simp add: takeWhile_append2)
  then show ?thesis
    using assms(1) by (simp add: token_len_def numeral_2_eq_2)
qed

lemma token_len_elim:
  assumes "token_len s = Some n"
  shows "\<exists>body rest. s = ''{{'' @ body @ ''}}'' @ rest \<and> body \<noteq> []
           \<and> (\<forall>x\<in>set body. token_char x) \<and> n = length body + 4"
proof -
  from assms obtain r where s: "s = CHR ''{'' # CHR ''{'' # r"
    by (auto simp: token_len_def take2_eq split: if_splits)
  let ?b = "takeWhile token_char r"
  from assms s have b: "?b \<noteq> []" and e: "take 2 (drop (length ?b) r) = ''}}''"
    and n: "n = length ?b + 4"
    by (auto simp: token_len_def Let_def numeral_2_eq_2 split: if_splits)
  from e obtain rest where "drop (length ?b) r = CHR ''}'' # CHR ''}'' # rest"
    by (auto simp: take2_eq)
  moreover have "r = ?b @ drop (length ?b) r"
    by (metis takeWhile_dropWhile_id dropWhile_eq_drop)
  ultimately have "r = ?b @ ''}}'' @ rest" by simp
  moreover have "\<forall>x\<in>set ?b. token_char x"
    by (auto dest: set_takeWhileD)
  ultimately show ?thesis using s b n by (metis append_Cons append_Nil)
qed

lemma token_sub_drop: "token_sub k repl s = token_sub 0 repl (drop k s)"
proof (induction s arbitrary: k)
  case Nil
  then show ?case by simp
next
  case (Cons c cs)
  then show ?case by (cases k) simp_all
qed

lemma token_sub_preimage:
  assumes "token_sub 0 ''*'' u = p @ q" and "CHR ''*'' \<notin> set p"
  shows "\<exists>u'. u = p @ u' \<and> token_sub 0 ''*'' u' = q"
  using assms
proof (induction p arbitrary: u)
  case Nil
  then show ?case by simp
next
  case (Cons x p)
  from Cons.prems obtain y us where u: "u = y # us" by (cases u) auto
  show ?case
  proof (cases "token_len u")
    case None
    with Cons.prems u have "y = x" and "token_sub 0 ''*'' us = p @ q" by auto
    moreover from this Cons.IH [of us] Cons.prems(2) obtain u' where
      "us = p @ u'" "token_sub 0 ''*'' u' = q" by auto
    ultimately show ?thesis using u by auto
  next
    case (Some n)
    with Cons.prems u show ?thesis by auto
  qed
qed

lemma token_len_after_sub:
  assumes "token_len (c # token_sub 0 ''*'' cs) = Some m"
  shows "\<exists>n. token_len (c # cs) = Some n"
proof -
  from token_len_elim [OF assms] obtain body rest where
    e: "c # token_sub 0 ''*'' cs = ''{{'' @ body @ ''}}'' @ rest" and b: "body \<noteq> []"
    and t: "\<forall>x\<in>set body. token_char x"
    by blast
  from e have c: "c = CHR ''{''"
    and s: "token_sub 0 ''*'' cs = (CHR ''{'' # body @ ''}}'') @ rest" by auto
  have "CHR ''*'' \<notin> set (CHR ''{'' # body @ ''}}'')"
    using t by auto
  from token_sub_preimage [OF s this] obtain u' where "cs = (CHR ''{'' # body @ ''}}'') @ u'"
    by blast
  then have "c # cs = ''{{'' @ body @ ''}}'' @ u'" using c by simp
  then show ?thesis using token_len_intro [OF b t] by metis
qed

lemma token_len_star: "token_len (CHR ''*'' # r) = None"
  by (simp add: token_len_def numeral_2_eq_2)

lemma token_sub_no_token: "\<not> token_search (token_sub 0 ''*'' s)"
proof (induction "length s" arbitrary: s rule: less_induct)
  case less
  show ?case
  proof (cases s)
    case Nil
    then show ?thesis by simp
  next
    case (Cons c cs)
    show ?thesis
    proof (cases "token_len (c # cs)")
      case None
      have "\<not> token_search (token_sub 0 ''*'' cs)"
        using less [of cs] Cons by simp
      moreover have "token_len (c # token_sub 0 ''*'' cs) = None"
        using token_len_after_sub [of c cs] None by (cases "token_len (c # token_sub 0 ''*'' cs)") auto
      ultimately show ?thesis using Cons None by simp
    next
      case (Some n)
      from token_len_elim [OF Some] have n: "0 < n" by auto
      have "token_sub (n - 1) ''*'' cs = token_sub 0 ''*'' (drop n s)"
        using token_sub_drop [of "n - 1" "''*''" cs] Cons n
        by (cases n) simp_all
      moreover have "\<not> token_search (token_sub 0 ''*'' (drop n s))"
      proof (cases "n < length s")
        case True
        then show ?thesis using less [of "drop n s"] n by simp
      next
        case False
        then show ?thesis by simp
      qed
      ultimately show ?thesis using Cons Some by (simp add: token_len_star)
    qed
  qed
qed

lemma sidecars_no_token:
  "\<not> token_search (stem pf) \<Longrightarrow>
     sidecars glob cpd cd v pf rel mf t s =
       (if is_file (files s) pf then
          (if parsed_metadata_files s (resolve mf) = Some INDIVIDUAL then Inr s
           else write_sidecar cpd cd INDIVIDUAL pf mf t s)
        else Inr s)"
  by (simp add: sidecars_def)

lemma patch_item_no_token:
  assumes "map_of (Changes s) index = Some (JObj d)" and "get_str d ''FromFile'' = Inr ff"
    and "\<not> token_search (stem (joinpath cpd (PurePath ff)))"
  shows "patch_item glob' cpd cd hp hpp n index s = patch_item glob cpd cd hp hpp n index s"
  using assms
  by (simp add: patch_item_def Let_def sidecars_no_token split: sum.splits)

lemma patch_item_token:
  assumes "map_of (Changes s) index = Some (JObj d)"
    and "get_str d ''Target'' = Inr t" and "stem (parent (PurePath t)) = ''Portraits''"
    and "get_str d ''FromFile'' = Inr ff"
    and "get_variant_metadata_file (joinpath cpd (PurePath ff))
           (target_variant (stem (PurePath t))) [VARIANT_SEPARATOR] = Inr mf"
    and "relative_to mf cpd = Inr mrel"
    and "relative_to (joinpath cpd (PurePath ff)) cpd = Inr prel"
    and "token_search (stem (joinpath cpd (PurePath ff)))"
  shows "\<exists>cs. patch_item glob cpd cd hp hpp n index s =
           (case glob (files s) cpd (token_sub 0 ''*'' (as_posix prel)) of
              Inl e \<Rightarrow> Inl e
            | Inr gs \<Rightarrow>
                glob_loop cpd cd (target_variant (stem (PurePath t)))
                  (as_posix (joinpath hpp (PurePath (stem (PurePath t))))) gs
                  (s\<lparr>Changes := cs\<rparr>))"
  using assms
  by (intro exI) (simp add: patch_item_def Let_def sidecars_def glob_string_def CP_WILDCARD_def)

text \<open>
  C7 (as amended): when the stem of the source path holds a template token, the pass
  globs below the mod directory with the pattern that has a \<open>*\<close> for every token of the
  relative path (no token is left in it), an error of the glob ends the run, and the
  matches go through the glob loop. There a match whose metadata path the tracking map
  already holds, as \<open>GLOBBED\<close> or as \<open>INDIVIDUAL\<close>, is passed over, and in a whole pass
  over a document no metadata path is written twice by the glob loop. When the stem
  holds no token the pass does not depend on the glob at all.
\<close>

theorem globbed_sidecar_written_once:
  assumes "patch_changes glob cpd cd hp hpp f es = Inr st"
  shows "distinct (map fst (filter (\<lambda>e. snd e = GLOBBED) (sidecar_log st)))
       \<and> (\<forall>n index s d t ff mf mrel prel.
             map_of (Changes s) index = Some (JObj d) \<longrightarrow>
             get_str d ''Target'' = Inr t \<longrightarrow> stem (parent (PurePath t)) = ''Portraits'' \<longrightarrow>
             get_str d ''FromFile'' = Inr ff \<longrightarrow>
             get_variant_metadata_file (joinpath cpd (PurePath ff))
               (target_variant (stem (PurePath t))) [VARIANT_SEPARATOR] = Inr mf \<longrightarrow>
             relative_to mf cpd = Inr mrel \<longrightarrow>
             relative_to (joinpath cpd (PurePath ff)) cpd = Inr prel \<longrightarrow>
             token_search (stem (joinpath cpd (PurePath ff))) \<longrightarrow>
             (\<exists>cs. patch_item glob cpd cd hp hpp n index s =
                (case glob (files s) cpd (token_sub 0 ''*'' (as_posix prel)) of
                   Inl e \<Rightarrow> Inl e
                 | Inr gs \<Rightarrow>
                     glob_loop cpd cd (target_variant (stem (PurePath t)))
                       (as_posix (joinpath hpp (PurePath (stem (PurePath t))))) gs
                       (s\<lparr>Changes := cs\<rparr>))))
       \<and> (\<forall>rel. \<not> token_search (token_sub 0 ''*'' (as_posix rel)))
       \<and> (\<forall>g gs gm v t s.
             get_variant_metadata_file g v [VARIANT_SEPARATOR] = Inr gm \<longrightarrow>
             parsed_metadata_files s (resolve gm) \<noteq> None \<longrightarrow>
             glob_loop cpd cd v t (g # gs) s = glob_loop cpd cd v t gs s)
       \<and> (\<forall>glob' n index s d ff.
             map_of (Changes s) index = Some (JObj d) \<longrightarrow>
             get_str d ''FromFile'' = Inr ff \<longrightarrow>
             \<not> token_search (stem (joinpath cpd (PurePath ff))) \<longrightarrow>
             patch_item glob' cpd cd hp hpp n index s = patch_item glob cpd cd hp hpp n index s)"
proof -
  let ?st0 = "\<lparr>files = f, Changes = zip [0 ..< length es] es,
        parsed_metadata_files = (\<lambda>k. None), sidecar_log = []\<rparr>"
  have "log_inv ?st0" by (simp add: log_inv_def)
  moreover have "patch_loop glob cpd cd hp hpp (length es) [0 ..< length es] ?st0 = Inr st"
    using assms by (simp add: patch_changes_def)
  ultimately have "log_inv st" by (rule patch_loop_inv [rotated])
  then have a: "distinct (map fst (filter (\<lambda>e. snd e = GLOBBED) (sidecar_log st)))"
    by (simp add: log_inv_def)
  have b: "\<forall>n index s d t ff mf mrel prel.
             map_of (Changes s) index = Some (JObj d) \<longrightarrow>
             get_str d ''Target'' = Inr t \<longrightarrow> stem (parent (PurePath t)) = ''Portraits'' \<longrightarrow>
             get_str d ''FromFile'' = Inr ff \<longrightarrow>
             get_variant_metadata_file (joinpath cpd (PurePath ff))
               (target_variant (stem (PurePath t))) [VARIANT_SEPARATOR] = Inr mf \<longrightarrow>
             relative_to mf cpd = Inr mrel \<longrightarrow>
             relative_to (joinpath cpd (PurePath ff)) cpd = Inr prel \<longrightarrow>
             token_search (stem (joinpath cpd (PurePath ff))) \<longrightarrow>
             (\<exists>cs. patch_item glob cpd cd hp hpp n index s =
                (case glob (files s) cpd (token_sub 0 ''*'' (as_posix prel)) of
                   Inl e \<Rightarrow> Inl e
                 | Inr gs \<Rightarrow>
                     glob_loop cpd cd (target_variant (stem (PurePath t)))
                       (as_posix (joinpath hpp (PurePath (stem (PurePath t))))) gs
                       (s\<lparr>Changes := cs\<rparr>)))"
    by (intro allI impI) (rule patch_item_token)
  have c: "\<forall>rel. \<not> token_search (token_sub 0 ''*'' (as_posix rel))"
    by (simp add: token_sub_no_token)
  have d: "\<forall>g gs gm v t s.
             get_variant_metadata_file g v [VARIANT_SEPARATOR] = Inr gm \<longrightarrow>
             parsed_metadata_files s (resolve gm) \<noteq> None \<longrightarrow>
             glob_loop cpd cd v t (g # gs) s = glob_loop cpd cd v t gs s"
    by auto
  have e: "\<forall>glob' n index s d ff.
             map_of (Changes s) index = Some (JObj d) \<longrightarrow>
             get_str d ''FromFile'' = Inr ff \<longrightarrow>
             \<not> token_search (stem (joinpath cpd (PurePath ff))) \<longrightarrow>
             patch_item glob' cpd cd hp hpp n index s = patch_item glob cpd cd hp hpp n index s"
    by (intro allI impI) (rule patch_item_no_token)
  from a b c d e show ?thesis by blast
qed

lemma run_seasons:
  "(case patch_changes glob_seasons ex_mod None ex_hd_portraits ex_hd_portraits_patch fs_seasons
          [entry_season, entry_season] of
      Inl e \<Rightarrow> None
    | Inr st \<Rightarrow> Some (sidecar_log st))
   = Some [([''mod'', ''assets'', ''Abigail_spring.json''], GLOBBED),
           ([''mod'', ''assets'', ''Abigail_summer.json''], GLOBBED)]"
  by code_simp

theorem globbed_sidecar_written_once_witness:
  "\<exists>st. patch_changes glob_seasons ex_mod None ex_hd_portraits ex_hd_portraits_patch fs_seasons
           [entry_season, entry_season] = Inr st
       \<and> sidecar_log st = [([''mod'', ''assets'', ''Abigail_spring.json''], GLOBBED),
                            ([''mod'', ''assets'', ''Abigail_summer.json''], GLOBBED)]
       \<and> distinct (map fst (filter (\<lambda>e. snd e = GLOBBED) (sidecar_log st)))
       \<and> patch_item no_glob ex_mod None ex_hd_portraits ex_hd_portraits_patch 1 0
            \<lparr>files = fs_abigail, Changes = [(0, entry_abigail)],
             parsed_metadata_files = (\<lambda>k. None), sidecar_log = []\<rparr>
          = patch_item glob_seasons ex_mod None ex_hd_portraits ex_hd_portraits_patch 1 0
            \<lparr>files = fs_abigail, Changes = [(0, entry_abigail)],
             parsed_metadata_files = (\<lambda>k. None), sidecar_log = []\<rparr>"
proof -
  let ?s = "\<lparr>files = fs_abigail, Changes = [(0, entry_abigail)],
             parsed_metadata_files = (\<lambda>k. None), sidecar_log = []\<rparr>"
  let ?d = "[(''Action'', JStr ''Load''), (''Target'', JStr ''Portraits/Abigail''),
           (''FromFile'', JStr ''assets/Abigail.png''), (''PatchMode'', JStr ''Replace'')]"
  from run_seasons obtain st where
    run: "patch_changes glob_seasons ex_mod None ex_hd_portraits ex_hd_portraits_patch fs_seasons
           [entry_season, entry_season] = Inr st"
    and lg: "sidecar_log st = [([''mod'', ''assets'', ''Abigail_spring.json''], GLOBBED),
                               ([''mod'', ''assets'', ''Abigail_summer.json''], GLOBBED)]"
    by (auto split: sum.splits)
  have m: "map_of (Changes ?s) 0 = Some (JObj ?d)"
    by (simp add: entry_abigail_def)
  have ff: "get_str ?d ''FromFile'' = Inr ''assets/Abigail.png''"
    by (simp add: get_str_def)
  have nt: "\<not> token_search (stem (joinpath ex_mod (PurePath ''assets/Abigail.png'')))"
    by code_simp
  from globbed_sidecar_written_once [OF run] m ff nt have
    eq: "patch_item no_glob ex_mod None ex_hd_portraits ex_hd_portraits_patch 1 0 ?s
      = patch_item glob_seasons ex_mod None ex_hd_portraits ex_hd_portraits_patch 1 0 ?s"
    by blast
  from globbed_sidecar_written_once [OF run] have
    dist: "distinct (map fst (filter (\<lambda>e. snd e = GLOBBED) (sidecar_log st)))"
    by (rule conjunct1)
  show ?thesis
    by (intro exI [of _ st] conjI) (rule run lg dist eq)+
qed

text \<open>
  A token in a directory name, not in the stem of the file: nothing is globbed, although
  the pattern made from the path has a match on disk, and no sidecar is written. And a
  metadata path written by the glob loop is written once more for an individual entry.
\<close>

theorem token_in_directory_counterexample:
  "token_search ''assets/{{season}}/Abigail.png''
   \<and> glob_season_dir fs_season_dir ex_mod (token_sub 0 ''*'' ''assets/{{season}}/Abigail.png'')
       = Inr [(True, [''mod'', ''assets'', ''spring'', ''Abigail.png''])]
   \<and> (case patch_changes glob_season_dir ex_mod None ex_hd_portraits ex_hd_portraits_patch
            fs_season_dir [entry_season_dir] of
        Inl e \<Rightarrow> None
      | Inr st \<Rightarrow> Some (sidecar_log st,
                         files st [''mod'', ''assets'', ''spring'', ''Abigail.json''],
                         map snd (Changes st)))
     = Some ([], None,
             [JObj [(''Action'', JStr ''EditImage''),
                    (''Target'', JStr ''Mods/HDPortraitsPatch/Abigail''),
                    (''FromFile'', JStr ''assets/{{season}}/Abigail.png'')],
              JObj [(''Action'', JStr ''Load''),
                    (''Target'', JStr ''Mods/HDPortraits/Abigail''),
                    (''FromFile'', JStr ''assets/{{season}}/Abigail.json'')]])
   \<and> (case patch_changes glob_seasons ex_mod None ex_hd_portraits ex_hd_portraits_patch
            fs_seasons [entry_season, entry_summer] of
        Inl e \<Rightarrow> None
      | Inr st \<Rightarrow> Some (sidecar_log st))
     = Some [([''mod'', ''assets'', ''Abigail_spring.json''], GLOBBED),
             ([''mod'', ''assets'', ''Abigail_summer.json''], GLOBBED),
             ([''mod'', ''assets'', ''Abigail_summer.json''], INDIVIDUAL)]"
  by code_simp

text \<open>Two tokens side by side become \<open>**\<close> inside a component, a pattern the glob of
  the library refuses.\<close>

lemma adjacent_tokens_pattern:
  "token_sub 0 ''*'' ''assets/{{a}}{{b}}.png'' = ''assets/**.png''"
  by code_simp

section \<open>Backups and sidecars\<close>

lemma with_suffix_shape:
  "with_suffix p s = Inr q \<Longrightarrow> q = (fst p, butlast (snd p) @ [stem_of (name p) @ s])"
  by (auto simp: with_suffix_def split: if_splits)

lemma collapse_snoc: "w \<noteq> ''..'' \<Longrightarrow> collapse acc (ws @ [w]) = collapse acc ws @ [w]"
  by (induction ws arbitrary: acc) auto

lemma resolve_snoc: "w \<noteq> ''..'' \<Longrightarrow> resolve (a, ws @ [w]) = collapse [] ws @ [w]"
  by (simp add: resolve_def collapse_snoc)

lemma json_bak_differ:
  assumes "with_suffix p ''.json'' = Inr q" and "with_suffix p' ''.bak'' = Inr b"
  shows "resolve q \<noteq> resolve b"
proof -
  have q: "resolve q = collapse [] (butlast (snd p)) @ [stem_of (name p) @ ''.json'']"
    using with_suffix_shape [OF assms(1)] by (simp add: resolve_snoc)
  have b: "resolve b = collapse [] (butlast (snd p')) @ [stem_of (name p') @ ''.bak'']"
    using with_suffix_shape [OF assms(2)] by (simp add: resolve_snoc)
  have "last (stem_of (name p) @ ''.json'') \<noteq> last (stem_of (name p') @ ''.bak'')"
    by simp
  then have "stem_of (name p) @ ''.json'' \<noteq> stem_of (name p') @ ''.bak''"
    by metis
  then show ?thesis unfolding q b by simp
qed

lemma write_and_backup_forced:
  assumes "write_and_backup f file j main cd True = Inr f'"
  shows "\<exists>dest nf. with_suffix dest ''.json'' = Inr nf \<and> f' = f(resolve nf \<mapsto> JsonFile j)
           \<and> (cd = None \<longrightarrow> dest = file)"
  using assms
  by (auto simp: write_and_backup_def split: sum.splits option.splits)

lemma write_and_backup_forced_bak:
  assumes "write_and_backup f file j main cd True = Inr f'" and "with_suffix p ''.bak'' = Inr b"
  shows "f' (resolve b) = f (resolve b)"
proof -
  from write_and_backup_forced [OF assms(1)] obtain dest nf where
    nf: "with_suffix dest ''.json'' = Inr nf" and f': "f' = f(resolve nf \<mapsto> JsonFile j)"
    by blast
  from json_bak_differ [OF nf assms(2)] show ?thesis by (simp add: f')
qed

lemma write_sidecar_bak:
  assumes "write_sidecar cpd cd kind pf mf t st = Inr st'" and "with_suffix p ''.bak'' = Inr b"
  shows "files st' (resolve b) = files st (resolve b)"
  using write_sidecar_cases [OF assms(1)] assms(2)
  by (auto dest: write_and_backup_forced_bak)







section \<open>What the loop leaves alone\<close>

lemma rfind_dot_append:
  "CHR ''.'' \<notin> set y \<Longrightarrow> rfind_dot (x @ CHR ''.'' # y) = Some (length x)"
  by (induction x) (auto simp: rfind_dot_none)

lemma stem_of_json: "x \<noteq> [] \<Longrightarrow> stem_of (x @ ''.json'') = x"
  using rfind_dot_append [of "''json''" x] by (simp add: stem_of_def)

lemma with_suffix_json_idem:
  assumes "with_suffix q ''.json'' = Inr mf"
  shows "with_suffix mf ''.json'' = Inr mf"
proof -
  from assms have n: "name q \<noteq> []" by (auto simp: with_suffix_def split: if_splits)
  then have s: "stem_of (name q) \<noteq> []" by (rule stem_of_nonempty)
  have mf: "mf = (fst q, butlast (snd q) @ [stem_of (name q) @ ''.json''])"
    using assms by (rule with_suffix_shape)
  show ?thesis
    unfolding mf using s by (simp add: with_suffix_def name_replaced stem_of_json)
qed

lemma metadata_file_json:
  "get_variant_metadata_file pf v sep = Inr mf \<Longrightarrow> with_suffix mf ''.json'' = Inr mf"
  by (auto simp: get_variant_metadata_file_def split: sum.splits intro: with_suffix_json_idem)

lemma log_covers_refl: "log_covers st st"
  by (simp add: log_covers_def)

lemma log_covers_trans: "log_covers a b \<Longrightarrow> log_covers b c \<Longrightarrow> log_covers a c"
  unfolding log_covers_def by (metis (no_types, lifting) image_mono subset_eq subset_trans)

lemma write_sidecar_covers:
  assumes "write_sidecar cpd None kind pf mf t st = Inr st'" and "with_suffix mf ''.json'' = Inr mf"
  shows "log_covers st st'"
proof -
  from write_sidecar_cases [OF assms(1)] show ?thesis
  proof
    assume "create_metadata_json (files st) pf t = Inr None
          \<and> st' = st\<lparr>parsed_metadata_files :=
                        (parsed_metadata_files st)(resolve mf \<mapsto> kind)\<rparr>"
    then show ?thesis by (simp add: log_covers_def)
  next
    assume "\<exists>j f. create_metadata_json (files st) pf t = Inr (Some j)
              \<and> write_and_backup (files st) mf j cpd None True = Inr f
              \<and> st' = st\<lparr>parsed_metadata_files := (parsed_metadata_files st)(resolve mf \<mapsto> kind),
                         files := f,
                         sidecar_log := sidecar_log st @ [(resolve mf, kind)]\<rparr>"
    then obtain j f where w: "write_and_backup (files st) mf j cpd None True = Inr f"
      and st': "st' = st\<lparr>parsed_metadata_files := (parsed_metadata_files st)(resolve mf \<mapsto> kind),
                         files := f,
                         sidecar_log := sidecar_log st @ [(resolve mf, kind)]\<rparr>"
      by blast
    from write_and_backup_forced [OF w] assms(2) have "f = (files st)(resolve mf \<mapsto> JsonFile j)"
      by auto
    then show ?thesis by (auto simp: log_covers_def st')
  qed
qed

lemma glob_loop_covers:
  "glob_loop cpd None v t gs st = Inr st' \<Longrightarrow> log_covers st st'"
proof (induction gs arbitrary: st)
  case Nil
  then show ?case by (simp add: log_covers_refl)
next
  case (Cons g gs)
  then show ?case
    by (auto split: sum.splits if_splits
        dest!: metadata_file_json dest: write_sidecar_covers intro: log_covers_trans)
qed

lemma sidecars_covers:
  assumes "sidecars glob cpd None v pf rel mf t st = Inr st'" and "with_suffix mf ''.json'' = Inr mf"
  shows "log_covers st st'"
  using assms
  by (auto simp: sidecars_def log_covers_refl split: if_splits sum.splits
      dest: glob_loop_covers write_sidecar_covers)

lemma log_covers_Changes: "log_covers (st\<lparr>Changes := cs\<rparr>) st' = log_covers st st'"
  by (simp add: log_covers_def)

lemma patch_item_covers:
  assumes "patch_item glob cpd None hp hpp n index st = Inr st'"
  shows "log_covers st st'"
  using assms
proof (cases rule: patch_item_elim)
  case (skip d t)
  then show ?thesis by (simp add: log_covers_refl)
next
  case (portrait d t ff mf mrel prel)
  from sidecars_covers [OF portrait(8) metadata_file_json [OF portrait(5)]]
  show ?thesis by (simp add: log_covers_Changes)
qed

lemma patch_loop_covers:
  "patch_loop glob cpd None hp hpp n js st = Inr st' \<Longrightarrow> log_covers st st'"
proof (induction js arbitrary: st)
  case Nil
  then show ?case by (simp add: log_covers_refl)
next
  case (Cons index rest)
  then show ?case
    by (auto split: sum.splits dest: patch_item_covers intro: log_covers_trans)
qed

lemma glob_loop_bak:
  "glob_loop cpd cd v t gs st = Inr st' \<Longrightarrow> with_suffix p ''.bak'' = Inr b \<Longrightarrow>
     files st' (resolve b) = files st (resolve b)"
proof (induction gs arbitrary: st)
  case Nil
  then show ?case by simp
next
  case (Cons g gs)
  then show ?case
    by (auto split: sum.splits if_splits dest: write_sidecar_bak)
qed

lemma sidecars_bak:
  "sidecars glob cpd cd v pf rel mf t st = Inr st' \<Longrightarrow> with_suffix p ''.bak'' = Inr b \<Longrightarrow>
     files st' (resolve b) = files st (resolve b)"
  by (auto simp: sidecars_def split: if_splits sum.splits dest: glob_loop_bak write_sidecar_bak)

lemma patch_item_bak:
  assumes "patch_item glob cpd cd hp hpp n index st = Inr st'" and "with_suffix p ''.bak'' = Inr b"
  shows "files st' (resolve b) = files st (resolve b)"
  using assms(1)
proof (cases rule: patch_item_elim)
  case (skip d t)
  then show ?thesis by simp
next
  case (portrait d t ff mf mrel prel)
  from sidecars_bak [OF portrait(8) assms(2)] show ?thesis by simp
qed

lemma patch_loop_bak:
  "patch_loop glob cpd cd hp hpp n js st = Inr st' \<Longrightarrow> with_suffix p ''.bak'' = Inr b \<Longrightarrow>
     files st' (resolve b) = files st (resolve b)"
proof (induction js arbitrary: st)
  case Nil
  then show ?case by simp
next
  case (Cons index rest)
  then show ?case
    by (auto split: sum.splits dest: patch_item_bak)
qed

section \<open>The rewritten list does not depend on the files\<close>

lemma patch_item_same_Changes:
  assumes "patch_item glob cpd cd hp hpp n index st = Inr st'"
    and "patch_item glob' cpd cd' hp hpp n index s = Inr s'"
    and "Changes st = Changes s"
  shows "Changes st' = Changes s'"
  using assms(1)
proof (cases rule: patch_item_elim)
  case a: (skip d t)
  from assms(2) show ?thesis
  proof (cases rule: patch_item_elim)
    case (skip d' t')
    with a assms(3) show ?thesis by simp
  next
    case (portrait d' t' ff mf mrel prel)
    with a assms(3) show ?thesis by simp
  qed
next
  case a: (portrait d t ff mf mrel prel)
  from assms(2) show ?thesis
  proof (cases rule: patch_item_elim)
    case (skip d' t')
    with a assms(3) show ?thesis by simp
  next
    case b: (portrait d' t' ff' mf' mrel' prel')
    from a(1) b(1) assms(3) have d: "d' = d" by simp
    with a(2) b(2) have t: "t' = t" by simp
    from d a(4) b(4) have ff: "ff' = ff" by simp
    from d t ff a(5) b(5) have mf: "mf' = mf" by simp
    from mf a(6) b(6) have mrel: "mrel' = mrel" by simp
    from ff a(7) b(7) have prel: "prel' = prel" by simp
    from sidecars_Changes [OF a(8)] sidecars_Changes [OF b(8)] assms(3) d t ff mf mrel prel
    show ?thesis by simp
  qed
qed

lemma patch_loop_same_Changes:
  "patch_loop glob cpd cd hp hpp n js st = Inr st' \<Longrightarrow>
   patch_loop glob' cpd cd' hp hpp n js s = Inr s' \<Longrightarrow>
   Changes st = Changes s \<Longrightarrow> Changes st' = Changes s'"
proof (induction js arbitrary: st s)
  case Nil
  then show ?case by simp
next
  case (Cons index rest)
  from Cons.prems(1) obtain st1 where
    a: "patch_item glob cpd cd hp hpp n index st = Inr st1"
    and a': "patch_loop glob cpd cd hp hpp n rest st1 = Inr st'"
    by (auto split: sum.splits)
  from Cons.prems(2) obtain s1 where
    b: "patch_item glob' cpd cd' hp hpp n index s = Inr s1"
    and b': "patch_loop glob' cpd cd' hp hpp n rest s1 = Inr s'"
    by (auto split: sum.splits)
  from patch_item_same_Changes [OF a b Cons.prems(3)] have "Changes st1 = Changes s1" .
  with a' b' show ?case by (rule Cons.IH)
qed

section \<open>Writing the documents\<close>

lemma with_suffix_bak:
  assumes "n \<noteq> []"
  shows "with_suffix (a, xs @ [n]) ''.bak'' = Inr (a, xs @ [stem_of n @ ''.bak''])"
  using assms by (simp add: with_suffix_def name_replaced)

lemma stem_of_documents:
  "stem_of ''content.json'' = ''content''" "stem_of ''content.bak'' = ''content''"
  "stem_of ''manifest.json'' = ''manifest''" "stem_of ''manifest.bak'' = ''manifest''"
  by (simp_all add: stem_of_def)

lemma joinpath_documents:
  "joinpath cpd (PurePath ''content.json'') = (fst cpd, snd cpd @ [''content.json''])"
  "joinpath cpd (PurePath ''manifest.json'') = (fst cpd, snd cpd @ [''manifest.json''])"
  "joinpath cpd (PurePath ''content.bak'') = (fst cpd, snd cpd @ [''content.bak''])"
  "joinpath cpd (PurePath ''manifest.bak'') = (fst cpd, snd cpd @ [''manifest.bak''])"
  by (simp_all add: joinpath_def PurePath_single)

lemma with_suffix_documents:
  "with_suffix (a, ds @ [''content.json'']) ''.bak'' = Inr (a, ds @ [''content.bak''])"
  "with_suffix (a, ds @ [''content.json'']) ''.json'' = Inr (a, ds @ [''content.json''])"
  "with_suffix (a, ds @ [''content.bak'']) ''.bak'' = Inr (a, ds @ [''content.bak''])"
  "with_suffix (a, ds @ [''content.bak'']) ''.json'' = Inr (a, ds @ [''content.json''])"
  "with_suffix (a, ds @ [''manifest.json'']) ''.bak'' = Inr (a, ds @ [''manifest.bak''])"
  "with_suffix (a, ds @ [''manifest.json'']) ''.json'' = Inr (a, ds @ [''manifest.json''])"
  "with_suffix (a, ds @ [''manifest.bak'']) ''.bak'' = Inr (a, ds @ [''manifest.bak''])"
  "with_suffix (a, ds @ [''manifest.bak'']) ''.json'' = Inr (a, ds @ [''manifest.json''])"
  by (simp_all add: with_suffix_bak with_suffix_json stem_of_documents)

lemma resolve_documents:
  "resolve (a, ds @ [''content.json'']) = collapse [] ds @ [''content.json'']"
  "resolve (a, ds @ [''content.bak'']) = collapse [] ds @ [''content.bak'']"
  "resolve (a, ds @ [''manifest.json'']) = collapse [] ds @ [''manifest.json'']"
  "resolve (a, ds @ [''manifest.bak'']) = collapse [] ds @ [''manifest.bak'']"
  by (simp_all add: resolve_snoc)

lemma update_dependencies_cong:
  "f (resolve p) = f' (resolve p') \<Longrightarrow> update_dependencies f p = update_dependencies f' p'"
  by (simp add: update_dependencies_def load_json_def)

lemma update_dependencies_file:
  "update_dependencies f p = Inr md \<Longrightarrow> f (resolve p) \<noteq> None"
  by (auto simp: update_dependencies_def load_json_def split: option.splits)

lemma write_documents_log:
  "write_documents cpd cd cf doc s = Inr st \<Longrightarrow> sidecar_log st = sidecar_log s"
  by (auto simp: write_documents_def split: sum.splits)

lemma write_documents_first:
  assumes wd: "write_documents cpd None (fst cpd, snd cpd @ [''content.json'']) doc s = Inr st"
    and cb: "files s (collapse [] (snd cpd) @ [''content.bak'']) = None"
    and mb: "files s (collapse [] (snd cpd) @ [''manifest.bak'']) = None"
    and cj: "files s (collapse [] (snd cpd) @ [''content.json'']) = Some c0"
  shows "\<exists>md m0. files s (collapse [] (snd cpd) @ [''manifest.json'']) = Some m0
      \<and> update_dependencies (files s) (fst cpd, snd cpd @ [''manifest.json'']) = Inr md
      \<and> files st (collapse [] (snd cpd) @ [''content.json''])
          = Some (JsonFile (JObj (AList.update ''Format'' (JStr ''1.28.0'') doc)))
      \<and> files st (collapse [] (snd cpd) @ [''manifest.json'']) = Some (JsonFile (JObj md))
      \<and> files st (collapse [] (snd cpd) @ [''content.bak'']) = Some c0
      \<and> files st (collapse [] (snd cpd) @ [''manifest.bak'']) = Some m0"
proof -
  let ?D = "collapse [] (snd cpd)"
  let ?doc = "JObj (AList.update ''Format'' (JStr ''1.28.0'') doc)"
  let ?f2 = "((files s)(?D @ [''content.json''] := None, ?D @ [''content.bak''] \<mapsto> c0))
               (?D @ [''content.json''] \<mapsto> JsonFile ?doc)"
  have w1: "write_and_backup (files s) (fst cpd, snd cpd @ [''content.json'']) ?doc cpd None False
      = Inr ?f2"
    using cb cj
    by (simp add: write_and_backup_def with_suffix_documents resolve_documents is_file_def
        rename_def)
  have g: "get_file_or_backup ?f2 (joinpath cpd (PurePath ''manifest.json''))
      = Inr (fst cpd, snd cpd @ [''manifest.json''])"
    using mb
    by (simp add: get_file_or_backup_def joinpath_documents with_suffix_documents
        resolve_documents is_file_def)
  have u: "update_dependencies ?f2 (fst cpd, snd cpd @ [''manifest.json''])
      = update_dependencies (files s) (fst cpd, snd cpd @ [''manifest.json''])"
    by (rule update_dependencies_cong) (simp add: resolve_documents)
  from wd w1 g u obtain md where
    md: "update_dependencies (files s) (fst cpd, snd cpd @ [''manifest.json'']) = Inr md"
    and w2: "write_and_backup ?f2 (fst cpd, snd cpd @ [''manifest.json'']) (JObj md) cpd None False
      = Inr (files st)"
    by (auto simp: write_documents_def split: sum.splits)
  from update_dependencies_file [OF md] obtain m0 where
    m0: "files s (?D @ [''manifest.json'']) = Some m0"
    by (auto simp: resolve_documents)
  from w2 mb m0 have "files st =
      ((?f2(?D @ [''manifest.json''] := None, ?D @ [''manifest.bak''] \<mapsto> m0))
         (?D @ [''manifest.json''] \<mapsto> JsonFile (JObj md)))"
    by (simp add: write_and_backup_def with_suffix_documents resolve_documents is_file_def
        rename_def)
  then show ?thesis using md m0 by simp
qed

lemma write_documents_second:
  assumes wd: "write_documents cpd None (fst cpd, snd cpd @ [''content.bak'']) doc s = Inr st"
    and cb: "files s (collapse [] (snd cpd) @ [''content.bak'']) = Some c0"
    and mb: "files s (collapse [] (snd cpd) @ [''manifest.bak'']) = Some m0"
  shows "\<exists>md. update_dependencies (files s) (fst cpd, snd cpd @ [''manifest.bak'']) = Inr md
      \<and> files st (collapse [] (snd cpd) @ [''content.json''])
          = Some (JsonFile (JObj (AList.update ''Format'' (JStr ''1.28.0'') doc)))
      \<and> files st (collapse [] (snd cpd) @ [''manifest.json'']) = Some (JsonFile (JObj md))"
proof -
  let ?D = "collapse [] (snd cpd)"
  let ?doc = "JObj (AList.update ''Format'' (JStr ''1.28.0'') doc)"
  let ?f2 = "(files s)(?D @ [''content.json''] \<mapsto> JsonFile ?doc)"
  have w1: "write_and_backup (files s) (fst cpd, snd cpd @ [''content.bak'']) ?doc cpd None False
      = Inr ?f2"
    using cb
    by (simp add: write_and_backup_def with_suffix_documents resolve_documents is_file_def)
  have g: "get_file_or_backup ?f2 (joinpath cpd (PurePath ''manifest.json''))
      = Inr (fst cpd, snd cpd @ [''manifest.bak''])"
    using mb
    by (simp add: get_file_or_backup_def joinpath_documents with_suffix_documents
        resolve_documents is_file_def)
  have u: "update_dependencies ?f2 (fst cpd, snd cpd @ [''manifest.bak''])
      = update_dependencies (files s) (fst cpd, snd cpd @ [''manifest.bak''])"
    by (rule update_dependencies_cong) (simp add: resolve_documents)
  from wd w1 g u obtain md where
    md: "update_dependencies (files s) (fst cpd, snd cpd @ [''manifest.bak'']) = Inr md"
    and w2: "write_and_backup ?f2 (fst cpd, snd cpd @ [''manifest.bak'']) (JObj md) cpd None False
      = Inr (files st)"
    by (auto simp: write_documents_def split: sum.splits)
  from w2 mb have "files st = ?f2(?D @ [''manifest.json''] \<mapsto> JsonFile (JObj md))"
    by (simp add: write_and_backup_def with_suffix_documents resolve_documents is_file_def)
  then show ?thesis using md by simp
qed

section \<open>Running twice\<close>

lemma run_shape:
  assumes "content_patcher_portraits glob cpd None hp hpp f = Inr st"
  shows "\<exists>cf cdict doc s.
      get_file_or_backup f (fst cpd, snd cpd @ [''content.json'']) = Inr cf
    \<and> load_json f cf = Inr (JObj cdict)
    \<and> write_documents cpd None cf doc s = Inr st
    \<and> ((\<exists>es. map_of cdict ''Changes'' = Some (JList es)
            \<and> patch_changes glob cpd None hp hpp f es = Inr s
            \<and> doc = AList.update ''Changes'' (JList (map snd (Changes s))) cdict)
        \<or> (map_of cdict ''Changes'' = Some (JObj [])
            \<and> doc = cdict
            \<and> s = \<lparr>files = f, Changes = [], parsed_metadata_files = (\<lambda>k. None),
                    sidecar_log = []\<rparr>))"
  using assms unfolding content_patcher_portraits_def Let_def joinpath_documents
  by (simp del: split_paired_Ex split: sum.splits json.splits option.splits if_splits)

lemma patch_changes_covers:
  assumes "patch_changes glob cpd None hp hpp f es = Inr s" and "k \<notin> fst ` set (sidecar_log s)"
  shows "files s k = f k"
proof -
  from assms(1) have "log_covers \<lparr>files = f, Changes = zip [0 ..< length es] es,
        parsed_metadata_files = (\<lambda>k. None), sidecar_log = []\<rparr> s"
    unfolding patch_changes_def by (rule patch_loop_covers)
  with assms(2) show ?thesis by (simp add: log_covers_def)
qed

lemma patch_changes_bak:
  assumes "patch_changes glob cpd cd hp hpp f es = Inr s" and "with_suffix p ''.bak'' = Inr b"
  shows "files s (resolve b) = f (resolve b)"
  using patch_loop_bak [OF assms(1) [unfolded patch_changes_def] assms(2)] by simp

lemma patch_changes_same_Changes:
  assumes "patch_changes glob cpd cd hp hpp f es = Inr s"
    and "patch_changes glob' cpd cd' hp hpp f' es = Inr s'"
  shows "Changes s = Changes s'"
  using assms unfolding patch_changes_def
  by (rule patch_loop_same_Changes) simp

text \<open>
  C2 (as amended): take a mod directory without backups of its two documents, run the
  transformation in place, and run it again on what the first run left. If both runs
  complete and the first run wrote no sidecar over \<open>content.json\<close> or
  \<open>manifest.json\<close>, then the first run has moved the original documents to their backup
  names, the second run reads them from there, and the patch document and the manifest
  the second run writes are the ones the first run wrote.
\<close>

theorem second_run_same_documents:
  assumes run1: "content_patcher_portraits glob cpd None hp hpp f0 = Inr st1"
    and run2: "content_patcher_portraits glob' cpd None hp hpp (files st1) = Inr st2"
    and nb: "\<not> is_file f0 (joinpath cpd (PurePath ''content.bak''))"
            "\<not> is_file f0 (joinpath cpd (PurePath ''manifest.bak''))"
    and nc: "resolve (joinpath cpd (PurePath ''content.json'')) \<notin> fst ` set (sidecar_log st1)"
            "resolve (joinpath cpd (PurePath ''manifest.json'')) \<notin> fst ` set (sidecar_log st1)"
  shows "files st2 (resolve (joinpath cpd (PurePath ''content.json'')))
           = files st1 (resolve (joinpath cpd (PurePath ''content.json'')))
       \<and> files st2 (resolve (joinpath cpd (PurePath ''manifest.json'')))
           = files st1 (resolve (joinpath cpd (PurePath ''manifest.json'')))
       \<and> files st1 (resolve (joinpath cpd (PurePath ''content.bak'')))
           = f0 (resolve (joinpath cpd (PurePath ''content.json'')))
       \<and> files st1 (resolve (joinpath cpd (PurePath ''manifest.bak'')))
           = f0 (resolve (joinpath cpd (PurePath ''manifest.json'')))"
proof -
  let ?D = "collapse [] (snd cpd)"
  let ?cj = "(fst cpd, snd cpd @ [''content.json''])"
  let ?cb = "(fst cpd, snd cpd @ [''content.bak''])"
  let ?mj = "(fst cpd, snd cpd @ [''manifest.json''])"
  let ?mb = "(fst cpd, snd cpd @ [''manifest.bak''])"
  have cb0: "f0 (?D @ [''content.bak'']) = None" and mb0: "f0 (?D @ [''manifest.bak'']) = None"
    using nb by (simp_all add: is_file_def joinpath_documents resolve_documents)
  have bcb: "with_suffix ?cj ''.bak'' = Inr ?cb" and bmb: "with_suffix ?mj ''.bak'' = Inr ?mb"
    by (simp_all add: with_suffix_documents)
  from run_shape [OF run1] obtain cf cdict doc s where
    g1: "get_file_or_backup f0 ?cj = Inr cf" and
    l1: "load_json f0 cf = Inr (JObj cdict)" and
    w1: "write_documents cpd None cf doc s = Inr st1" and
    b1: "(\<exists>es. map_of cdict ''Changes'' = Some (JList es)
            \<and> patch_changes glob cpd None hp hpp f0 es = Inr s
            \<and> doc = AList.update ''Changes'' (JList (map snd (Changes s))) cdict)
        \<or> (map_of cdict ''Changes'' = Some (JObj [])
            \<and> doc = cdict
            \<and> s = \<lparr>files = f0, Changes = [], parsed_metadata_files = (\<lambda>k. None),
                    sidecar_log = []\<rparr>)"
    by blast
  from g1 cb0 have cf: "cf = ?cj"
    by (simp add: get_file_or_backup_def with_suffix_documents is_file_def resolve_documents)
  from l1 have c0: "f0 (?D @ [''content.json'']) = Some (JsonFile (JObj cdict))"
    by (auto simp: cf load_json_def resolve_documents split: option.splits fdata.splits)
  have lg: "sidecar_log st1 = sidecar_log s"
    using w1 by (rule write_documents_log)
  have fr: "files s k = f0 k" if "k \<notin> fst ` set (sidecar_log s)" for k
    using b1 that by (auto dest: patch_changes_covers)
  have bk: "files s (resolve b) = f0 (resolve b)" if "with_suffix p ''.bak'' = Inr b" for p b
    using b1 that by (auto dest: patch_changes_bak)
  have s_cb: "files s (?D @ [''content.bak'']) = None"
    using bk [OF bcb] cb0 by (simp add: resolve_documents)
  have s_mb: "files s (?D @ [''manifest.bak'']) = None"
    using bk [OF bmb] mb0 by (simp add: resolve_documents)
  have s_cj: "files s (?D @ [''content.json'']) = Some (JsonFile (JObj cdict))"
    using fr [of "?D @ [''content.json'']"] nc(1) c0
    by (simp add: lg joinpath_documents resolve_documents)
  have s_mj: "files s (?D @ [''manifest.json'']) = f0 (?D @ [''manifest.json''])"
    using fr [of "?D @ [''manifest.json'']"] nc(2)
    by (simp add: lg joinpath_documents resolve_documents)
  from write_documents_first [OF w1 [unfolded cf] s_cb s_mb s_cj] obtain md m0 where
    m0: "files s (?D @ [''manifest.json'']) = Some m0" and
    md: "update_dependencies (files s) ?mj = Inr md" and
    r1: "files st1 (?D @ [''content.json''])
          = Some (JsonFile (JObj (AList.update ''Format'' (JStr ''1.28.0'') doc)))"
        "files st1 (?D @ [''manifest.json'']) = Some (JsonFile (JObj md))"
        "files st1 (?D @ [''content.bak'']) = Some (JsonFile (JObj cdict))"
        "files st1 (?D @ [''manifest.bak'']) = Some m0"
    by blast
  from run_shape [OF run2] obtain cf' cdict' doc' s' where
    g2: "get_file_or_backup (files st1) ?cj = Inr cf'" and
    l2: "load_json (files st1) cf' = Inr (JObj cdict')" and
    w2: "write_documents cpd None cf' doc' s' = Inr st2" and
    b2: "(\<exists>es. map_of cdict' ''Changes'' = Some (JList es)
            \<and> patch_changes glob' cpd None hp hpp (files st1) es = Inr s'
            \<and> doc' = AList.update ''Changes'' (JList (map snd (Changes s'))) cdict')
        \<or> (map_of cdict' ''Changes'' = Some (JObj [])
            \<and> doc' = cdict'
            \<and> s' = \<lparr>files = files st1, Changes = [], parsed_metadata_files = (\<lambda>k. None),
                    sidecar_log = []\<rparr>)"
    by blast
  from g2 r1(3) have cf': "cf' = ?cb"
    by (simp add: get_file_or_backup_def with_suffix_documents is_file_def resolve_documents)
  from l2 r1(3) have cd: "cdict' = cdict"
    by (simp add: cf' load_json_def resolve_documents)
  have doc: "doc' = doc"
    using b1 b2 unfolding cd by (auto dest: patch_changes_same_Changes)
  have bk': "files s' (resolve b) = files st1 (resolve b)" if "with_suffix p ''.bak'' = Inr b" for p b
    using b2 that by (auto dest: patch_changes_bak)
  have s'_cb: "files s' (?D @ [''content.bak'']) = Some (JsonFile (JObj cdict))"
    using bk' [OF bcb] r1(3) by (simp add: resolve_documents)
  have s'_mb: "files s' (?D @ [''manifest.bak'']) = Some m0"
    using bk' [OF bmb] r1(4) by (simp add: resolve_documents)
  from write_documents_second [OF w2 [unfolded cf'] s'_cb s'_mb] obtain md' where
    md': "update_dependencies (files s') ?mb = Inr md'" and
    r2: "files st2 (?D @ [''content.json''])
          = Some (JsonFile (JObj (AList.update ''Format'' (JStr ''1.28.0'') doc')))"
        "files st2 (?D @ [''manifest.json'']) = Some (JsonFile (JObj md'))"
    by blast
  have "update_dependencies (files s') ?mb = update_dependencies (files s) ?mj"
    by (rule update_dependencies_cong) (simp add: resolve_documents s'_mb m0)
  with md md' have "md' = md" by simp
  with r1 r2 doc c0 m0 s_mj show ?thesis
    by (simp add: joinpath_documents resolve_documents)
qed

lemma run_abigail_twice:
  "(case content_patcher_portraits no_glob ex_mod None ex_hd_portraits ex_hd_portraits_patch
          fs_abigail of
      Inl e \<Rightarrow> None
    | Inr st1 \<Rightarrow>
        Some (sidecar_log st1,
              (case content_patcher_portraits no_glob ex_mod None ex_hd_portraits
                      ex_hd_portraits_patch (files st1) of
                 Inl e \<Rightarrow> False
               | Inr st2 \<Rightarrow> True)))
   = Some ([([''mod'', ''assets'', ''Abigail.json''], INDIVIDUAL)], True)"
  by code_simp

theorem second_run_same_documents_witness:
  "\<exists>st1 st2.
      content_patcher_portraits no_glob ex_mod None ex_hd_portraits ex_hd_portraits_patch
        fs_abigail = Inr st1
    \<and> content_patcher_portraits no_glob ex_mod None ex_hd_portraits ex_hd_portraits_patch
        (files st1) = Inr st2
    \<and> files st2 [''mod'', ''content.json''] = files st1 [''mod'', ''content.json'']
    \<and> files st2 [''mod'', ''manifest.json''] = files st1 [''mod'', ''manifest.json'']
    \<and> files st1 [''mod'', ''content.bak''] = fs_abigail [''mod'', ''content.json'']
    \<and> files st1 [''mod'', ''manifest.bak''] = fs_abigail [''mod'', ''manifest.json'']"
proof -
  from run_abigail_twice obtain st1 st2 where
    run1: "content_patcher_portraits no_glob ex_mod None ex_hd_portraits ex_hd_portraits_patch
        fs_abigail = Inr st1"
    and lg: "sidecar_log st1 = [([''mod'', ''assets'', ''Abigail.json''], INDIVIDUAL)]"
    and run2: "content_patcher_portraits no_glob ex_mod None ex_hd_portraits ex_hd_portraits_patch
        (files st1) = Inr st2"
    by (auto split: sum.splits)
  have k: "resolve (joinpath ex_mod (PurePath ''content.json'')) = [''mod'', ''content.json'']"
    "resolve (joinpath ex_mod (PurePath ''manifest.json'')) = [''mod'', ''manifest.json'']"
    "resolve (joinpath ex_mod (PurePath ''content.bak'')) = [''mod'', ''content.bak'']"
    "resolve (joinpath ex_mod (PurePath ''manifest.bak'')) = [''mod'', ''manifest.bak'']"
    by (simp_all add: joinpath_documents resolve_def ex_mod_def)
  have nb: "\<not> is_file fs_abigail (joinpath ex_mod (PurePath ''content.bak''))"
    "\<not> is_file fs_abigail (joinpath ex_mod (PurePath ''manifest.bak''))"
    by (simp_all add: is_file_def k fs_abigail_def)
  have nc: "resolve (joinpath ex_mod (PurePath ''content.json'')) \<notin> fst ` set (sidecar_log st1)"
    "resolve (joinpath ex_mod (PurePath ''manifest.json'')) \<notin> fst ` set (sidecar_log st1)"
    by (simp_all add: k lg)
  from second_run_same_documents [OF run1 run2 nb nc] run1 run2 show ?thesis
    unfolding k by blast
qed

text \<open>
  The first run writes the sidecar of \<open>content.png\<close> over \<open>content.json\<close> and then
  backs that up as the original; the second run finds no \<open>Changes\<close> in it.
\<close>

theorem second_run_collision_counterexample:
  "(case content_patcher_portraits no_glob ex_mod None ex_hd_portraits ex_hd_portraits_patch
          fs_collision of
      Inl e \<Rightarrow> None
    | Inr st1 \<Rightarrow>
        Some (files st1 [''mod'', ''content.bak''],
              (case content_patcher_portraits no_glob ex_mod None ex_hd_portraits
                      ex_hd_portraits_patch (files st1) of
                 Inl e \<Rightarrow> Some e
               | Inr st2 \<Rightarrow> None)))
   = Some (Some (JsonFile (JObj [(''Size'', JInt 128),
                                 (''Portrait'', JStr ''Mods/HDPortraitsPatch/content'')])),
           Some KeyError)"
  by code_simp

section \<open>The contents of a written sidecar\<close>














end
